theory Spec2Isabelle
  imports Main
begin

section \<open>Strings\<close>

text \<open>
  JavaScript strings are modelled as \<open>string\<close>; a \<open>char\<close> stands for one code unit
  below 256. The white space of \<open>String.prototype.trim\<close>, of \<open>\s\<close> in a regular
  expression and of \<open>parseInt\<close> is the same set; its members below 256 are TAB, LF, VT,
  FF, CR, SPACE and NBSP.
\<close>

definition is_ws :: "char \<Rightarrow> bool" where
  "is_ws c = (c \<in> set [CHR 0x09, CHR 0x0A, CHR 0x0B, CHR 0x0C, CHR 0x0D, CHR 0x20, CHR 0xA0])"

definition trim :: "string \<Rightarrow> string" where
  "trim s = rev (dropWhile is_ws (rev (dropWhile is_ws s)))"

definition is_digit :: "char \<Rightarrow> bool" where
  "is_digit c = (c \<in> set ''0123456789'')"

definition is_alpha :: "char \<Rightarrow> bool" where
  "is_alpha c = (c \<in> set ''abcdefghijklmnopqrstuvwxyzABCDEFGHIJKLMNOPQRSTUVWXYZ'')"

definition is_hex :: "char \<Rightarrow> bool" where
  "is_hex c = (c \<in> set ''0123456789abcdefABCDEF'')"

text \<open>\<open>s.startsWith(p)\<close> and \<open>s.includes(p)\<close>.\<close>

fun starts_with :: "string \<Rightarrow> string \<Rightarrow> bool" where
  "starts_with s [] = True"
| "starts_with [] (p # ps) = False"
| "starts_with (c # cs) (p # ps) = (c = p \<and> starts_with cs ps)"

fun str_includes :: "string \<Rightarrow> string \<Rightarrow> bool" where
  "str_includes [] p = (p = [])"
| "str_includes (c # cs) p = (starts_with (c # cs) p \<or> str_includes cs p)"

text \<open>
  The value of a digit in \<open>parseInt\<close>: \<open>0-9\<close>, then \<open>a-z\<close> and \<open>A-Z\<close> from 10; every
  other character gets 36, which no radix accepts.
\<close>

fun index_of :: "char \<Rightarrow> string \<Rightarrow> nat" where
  "index_of c [] = 0"
| "index_of c (d # ds) = (if c = d then 0 else Suc (index_of c ds))"

definition digit_val :: "char \<Rightarrow> nat" where
  "digit_val c =
     (if c \<in> set ''0123456789abcdefghijklmnopqrstuvwxyz''
      then index_of c ''0123456789abcdefghijklmnopqrstuvwxyz''
      else if c \<in> set ''ABCDEFGHIJKLMNOPQRSTUVWXYZ''
      then 10 + index_of c ''ABCDEFGHIJKLMNOPQRSTUVWXYZ''
      else 36)"

definition digits_value :: "nat \<Rightarrow> string \<Rightarrow> nat" where
  "digits_value radix ds = foldl (\<lambda>a c. a * radix + digit_val c) 0 ds"

text \<open>
  A JavaScript number that comes from \<open>parseInt\<close>. \<open>NaN\<close> is itself. An integer of
  magnitude at most \<open>2^53\<close> is a double, so the number is that integer: \<open>Exact v\<close>
  (\<open>-0\<close> is \<open>Exact 0\<close>). Beyond \<open>2^53\<close> the number is the double that JavaScript makes of
  the integer \<open>v\<close> that was read, \<open>Rounded v\<close>: the model keeps \<open>v\<close> and does not
  compute the double (past 20 significant decimal digits the language leaves it to the
  implementation, and past the largest double it is \<open>Infinity\<close>). Rounding is monotone and
  keeps the sign, so a \<open>Rounded v\<close> compares with a small integer as \<open>v\<close> does.
\<close>

datatype jsnum = NaN | Exact int | Rounded int

definition to_number :: "int \<Rightarrow> jsnum" where
  "to_number v = (if \<bar>v\<bar> \<le> 2 ^ 53 then Exact v else Rounded v)"

text \<open>Truthiness of a number: \<open>NaN\<close> and 0 are falsy.\<close>

definition truthy :: "jsnum \<Rightarrow> bool" where
  "truthy n = (case n of NaN \<Rightarrow> False | Exact v \<Rightarrow> v \<noteq> 0 | Rounded v \<Rightarrow> True)"

text \<open>\<open>n >= 600\<close> and \<open>Math.min(n, 6)\<close>.\<close>

definition ge_600 :: "jsnum \<Rightarrow> bool" where
  "ge_600 n = (case n of NaN \<Rightarrow> False | Exact v \<Rightarrow> 600 \<le> v | Rounded v \<Rightarrow> 600 \<le> v)"

definition min_6 :: "jsnum \<Rightarrow> jsnum" where
  "min_6 n =
     (case n of
        NaN \<Rightarrow> NaN
      | Exact v \<Rightarrow> Exact (min v 6)
      | Rounded v \<Rightarrow> if v < 6 then Rounded v else Exact 6)"

text \<open>
  \<open>parseInt(s)\<close> with no radix: leading white space is skipped, then an optional sign,
  then the prefix \<open>0x\<close> or \<open>0X\<close> selects radix 16, then the longest run of digits of the
  radix is read. With no digit the result is \<open>NaN\<close>; otherwise it is the number of the
  signed integer that the digits denote.
\<close>

definition parseInt :: "string \<Rightarrow> jsnum" where
  "parseInt s =
     (let t = dropWhile is_ws s;
          neg = starts_with t ''-'';
          u = (if starts_with t ''-'' \<or> starts_with t ''+'' then drop 1 t else t);
          hex = (starts_with u ''0x'' \<or> starts_with u ''0X'');
          radix = (if hex then 16 else 10);
          v = (if hex then drop 2 u else u);
          ds = takeWhile (\<lambda>c. digit_val c < radix) v
      in if ds = [] then NaN
         else to_number ((if neg then - 1 else 1) * int (digits_value radix ds)))"

section \<open>The input tree\<close>

text \<open>
  The tree the DOM supplier hands over: a text node (\<open>nodeType === 3\<close>) with its
  \<open>textContent\<close>, or an element (\<open>nodeType === 1\<close>) with its tag name as
  \<open>tagName.toLowerCase()\<close> gives it, its attributes and its \<open>childNodes\<close>. The sanitizer
  leaves no node of another kind. An element on its own is the triple of its fields.
\<close>

datatype dom = TextNode string | Element string "(string \<times> string) list" "dom list"

type_synonym element = "string \<times> (string \<times> string) list \<times> dom list"

fun textContent :: "dom \<Rightarrow> string" where
  "textContent (TextNode t) = t"
| "textContent (Element tag as ks) = concat (map textContent ks)"

definition getAttribute :: "(string \<times> string) list \<Rightarrow> string \<Rightarrow> string option" where
  "getAttribute as name = map_of as name"

definition hasAttribute :: "(string \<times> string) list \<Rightarrow> string \<Rightarrow> bool" where
  "hasAttribute as name = (map_of as name \<noteq> None)"

text \<open>\<open>getAttribute(name) || dflt\<close>: an absent or empty attribute gives the default.\<close>

definition attr_or :: "(string \<times> string) list \<Rightarrow> string \<Rightarrow> string \<Rightarrow> string" where
  "attr_or as name dflt =
     (case getAttribute as name of None \<Rightarrow> dflt | Some v \<Rightarrow> if v = [] then dflt else v)"

text \<open>
  \<open>querySelectorAll\<close> on an element: its descendant elements in document order, each
  with the tag of its parent element (what \<open>parentElement.tagName.toLowerCase()\<close> reads).
\<close>

fun descendants :: "string \<Rightarrow> dom list \<Rightarrow> (string \<times> element) list" where
  "descendants ptag [] = []"
| "descendants ptag (TextNode t # ks) = descendants ptag ks"
| "descendants ptag (Element tag as cs # ks) =
     (ptag, (tag, as, cs)) # descendants tag cs @ descendants ptag ks"

definition rows_of :: "element \<Rightarrow> (string \<times> element) list" where
  "rows_of e = (case e of (tag, as, ks) \<Rightarrow>
     filter (\<lambda>(p, (t, a, c)). t = ''tr'') (descendants tag ks))"

definition cells_of :: "element \<Rightarrow> element list" where
  "cells_of e = (case e of (tag, as, ks) \<Rightarrow>
     map snd (filter (\<lambda>(p, (t, a, c)). t = ''th'' \<or> t = ''td'') (descendants tag ks)))"

section \<open>The output tree\<close>

datatype alignment = CENTER | RIGHT | JUSTIFY | LEFT | AUTO

datatype target = BLANK | SELF

text \<open>\<open>LINK url target noreferrer\<close>; \<open>BOLD fontWeightValue\<close>; \<open>COLOR color\<close>.\<close>

datatype decoration = BOLD jsnum | ITALIC | UNDERLINE | COLOR string | LINK string target bool

record paragraphData =
  textAlignment :: alignment
  indentation :: "int option"

record tableData =
  colsWidthRatio :: "int list"
  rowsHeight :: "int list"
  colsMinWidth :: "int list"
  borderColor :: string
  borderWidth :: int
  borderStyle :: string

record containerData =
  widthSize :: string
  containerAlignment :: alignment
  textWrap :: bool

text \<open>
  One constructor for each \<open>type\<close> of node; the first field is the \<open>id\<close>, a missing
  optional field is \<open>None\<close>, a number that comes from \<open>parseInt\<close> is a \<open>jsnum\<close>.
  \<open>TEXT id text decorations\<close>; \<open>HEADING id level textAlignment nodes\<close>;
  \<open>TABLE_CELL id colspan nodes\<close>; \<open>IMAGE id containerData url width height\<close>.
\<close>

datatype rnode =
    PARAGRAPH string "paragraphData option" "rnode list"
  | HEADING string jsnum alignment "rnode list"
  | BULLETED_LIST string "rnode list"
  | ORDERED_LIST string "rnode list"
  | LIST_ITEM string "rnode list"
  | BLOCKQUOTE string "rnode list"
  | CODE_BLOCK string "rnode list"
  | TABLE string tableData "rnode list"
  | TABLE_ROW string "rnode list"
  | TABLE_CELL string "jsnum option" "rnode list"
  | IMAGE string containerData string jsnum jsnum
  | DIVIDER string
  | TEXT string string "decoration list option"

datatype document = Document "rnode list"

fun node_type :: "rnode \<Rightarrow> string" where
  "node_type (PARAGRAPH i d ns) = ''PARAGRAPH''"
| "node_type (HEADING i l a ns) = ''HEADING''"
| "node_type (BULLETED_LIST i ns) = ''BULLETED_LIST''"
| "node_type (ORDERED_LIST i ns) = ''ORDERED_LIST''"
| "node_type (LIST_ITEM i ns) = ''LIST_ITEM''"
| "node_type (BLOCKQUOTE i ns) = ''BLOCKQUOTE''"
| "node_type (CODE_BLOCK i ns) = ''CODE_BLOCK''"
| "node_type (TABLE i d ns) = ''TABLE''"
| "node_type (TABLE_ROW i ns) = ''TABLE_ROW''"
| "node_type (TABLE_CELL i c ns) = ''TABLE_CELL''"
| "node_type (IMAGE i c u w h) = ''IMAGE''"
| "node_type (DIVIDER i) = ''DIVIDER''"
| "node_type (TEXT i t d) = ''TEXT''"

section \<open>Identifiers\<close>

text \<open>
  \<open>generateId\<close> reads \<open>Math.random\<close>. The generator is the sequence of identifiers it
  will give from now on; a call returns the first and leaves the rest. Every function
  that generates identifiers takes the generator and returns it with its result.
\<close>

type_synonym rng = "nat \<Rightarrow> string"

definition generateId :: "rng \<Rightarrow> string \<times> rng" where
  "generateId r = (r 0, \<lambda>k. r (Suc k))"

definition createSpacingParagraph :: "rng \<Rightarrow> rnode \<times> rng" where
  "createSpacingParagraph r =
     (case generateId r of (i, r1) \<Rightarrow> (PARAGRAPH i None [TEXT [] '' '' None], r1))"

fun spacings :: "nat \<Rightarrow> rng \<Rightarrow> rnode list \<times> rng" where
  "spacings 0 r = ([], r)"
| "spacings (Suc n) r =
     (case createSpacingParagraph r of (s, r1) \<Rightarrow>
      case spacings n r1 of (ss, r2) \<Rightarrow> (s # ss, r2))"

section \<open>Style and class extraction\<close>

record styleData =
  style_margin :: bool
  style_padding :: bool
  style_textAlignment :: "alignment option"
  style_color :: "string option"
  style_fontSize :: "jsnum option"
  style_fontWeight :: "jsnum option"

record classData =
  class_highlight :: bool
  class_textAlignment :: "alignment option"
  class_isSection :: bool

text \<open>
  The three regular expressions of \<open>processNodeStyle\<close> have the shape
  \<open>key\s*:\s*(value)\s*(!important)?\<close>. \<open>match\<close> takes the leftmost position where the
  key is followed by white space, a colon, white space and a value; the optional tail
  always matches, so the value is matched greedily. \<open>match_prop key val s\<close> is the first
  capture group.
\<close>

definition after_colon :: "string \<Rightarrow> string option" where
  "after_colon s =
     (case dropWhile is_ws s of
        [] \<Rightarrow> None
      | c # cs \<Rightarrow> if c = CHR '':'' then Some (dropWhile is_ws cs) else None)"

fun match_prop :: "string \<Rightarrow> (string \<Rightarrow> string option) \<Rightarrow> string \<Rightarrow> string option" where
  "match_prop key val [] = None"
| "match_prop key val (c # cs) =
     (case (if starts_with (c # cs) key
            then Option.bind (after_colon (drop (length key) (c # cs))) val
            else None) of
        Some v \<Rightarrow> Some v
      | None \<Rightarrow> match_prop key val cs)"

text \<open>\<open>#[0-9a-fA-F]{3,6}|rgba?\([^)]+\)|[a-zA-Z]+\<close>, the alternatives in this order.\<close>

definition color_value :: "string \<Rightarrow> string option" where
  "color_value s =
     (let hexd = takeWhile is_hex (take 6 (drop 1 s));
          pre = (if starts_with (drop 3 s) ''a'' then ''rgba'' else ''rgb'');
          u = drop (length pre) s;
          body = takeWhile (\<lambda>c. c \<noteq> CHR '')'') (drop 1 u);
          letters = takeWhile is_alpha s
      in if starts_with s ''#'' \<and> 3 \<le> length hexd then Some (CHR ''#'' # hexd)
         else if starts_with s ''rgb'' \<and> starts_with u ''('' \<and> body \<noteq> []
                 \<and> starts_with (drop (Suc (length body)) u) '')''
         then Some (pre @ ''('' @ body @ '')'')
         else if letters \<noteq> [] then Some letters
         else None)"

text \<open>\<open>(\d+)\<close> and \<open>(\d+|bold|normal)\<close>.\<close>

definition digits_value_str :: "string \<Rightarrow> string option" where
  "digits_value_str s = (let ds = takeWhile is_digit s in if ds = [] then None else Some ds)"

definition weight_value :: "string \<Rightarrow> string option" where
  "weight_value s =
     (case digits_value_str s of
        Some ds \<Rightarrow> Some ds
      | None \<Rightarrow> if starts_with s ''bold'' then Some ''bold''
                else if starts_with s ''normal'' then Some ''normal''
                else None)"

text \<open>
  \<open>processNodeStyle\<close> reads the attributes of the element. An absent or empty \<open>style\<close>
  gives \<open>null\<close>. A field that is not set is \<open>False\<close> or \<open>None\<close>.
\<close>

definition processNodeStyle :: "(string \<times> string) list \<Rightarrow> styleData option" where
  "processNodeStyle as =
     (case getAttribute as ''style'' of
        None \<Rightarrow> None
      | Some style \<Rightarrow>
          if style = [] then None
          else Some \<lparr>
            style_margin = str_includes style ''margin'',
            style_padding = str_includes style ''padding'',
            style_textAlignment =
              (if str_includes style ''text-align'' then
                 Some (if str_includes style ''text-align: center'' then CENTER
                       else if str_includes style ''text-align: right'' then RIGHT
                       else if str_includes style ''text-align: justify'' then JUSTIFY
                       else LEFT)
               else None),
            style_color = match_prop ''color'' color_value style,
            style_fontSize = map_option parseInt (match_prop ''font-size'' digits_value_str style),
            style_fontWeight =
              (case match_prop ''font-weight'' weight_value style of
                 None \<Rightarrow> None
               | Some w \<Rightarrow> if w = ''bold'' then Some (Exact 700)
                          else if w = ''normal'' then Some (Exact 400)
                          else Some (parseInt w)) \<rparr>)"

definition processNodeClass :: "(string \<times> string) list \<Rightarrow> classData option" where
  "processNodeClass as =
     (case getAttribute as ''class'' of
        None \<Rightarrow> None
      | Some className \<Rightarrow>
          if className = [] then None
          else Some \<lparr>
            class_highlight =
              (str_includes className ''highlight'' \<or> str_includes className ''important''),
            class_textAlignment =
              (let a1 = (if str_includes className ''center''
                            \<or> str_includes className ''text-center''
                         then Some CENTER else None);
                   a2 = (if str_includes className ''right''
                            \<or> str_includes className ''text-right''
                         then Some RIGHT else a1)
               in if str_includes className ''justify''
                     \<or> str_includes className ''text-justify''
                  then Some JUSTIFY else a2),
            class_isSection =
              (str_includes className ''section'' \<or> str_includes className ''container'') \<rparr>)"

section \<open>Node builders\<close>

text \<open>
  A text child of an element whose style has a colour or a font weight gets a
  \<open>decorations\<close> array: the colour, then bold when the weight is at least 600.
\<close>

definition styledText :: "styleData option \<Rightarrow> string \<Rightarrow> rnode" where
  "styledText parentStyle text =
     TEXT [] text
       (case parentStyle of
          None \<Rightarrow> None
        | Some st \<Rightarrow>
            if (style_color st \<noteq> None \<and> style_color st \<noteq> Some [])
               \<or> (case style_fontWeight st of None \<Rightarrow> False | Some w \<Rightarrow> truthy w)
            then Some
              ((case style_color st of
                  None \<Rightarrow> []
                | Some c \<Rightarrow> if c = [] then [] else [COLOR c])
               @ (case style_fontWeight st of
                    None \<Rightarrow> []
                  | Some w \<Rightarrow> if truthy w \<and> ge_600 w then [BOLD w] else []))
            else None)"

text \<open>
  \<open>hasAttribute(name) ? parseInt(getAttribute(name) || '0') : dflt\<close>, for the width and
  the height of an image.
\<close>

definition img_dim :: "(string \<times> string) list \<Rightarrow> string \<Rightarrow> int \<Rightarrow> jsnum" where
  "img_dim as name dflt =
     (if hasAttribute as name then parseInt (attr_or as name ''0'') else Exact dflt)"

definition imageNode :: "string \<Rightarrow> (string \<times> string) list \<Rightarrow> rnode" where
  "imageNode i as =
     IMAGE i \<lparr>widthSize = ''CONTENT'', containerAlignment = CENTER, textWrap = True\<rparr>
       (attr_or as ''src'' []) (img_dim as ''width'' 500) (img_dim as ''height'' 300)"

definition headingTags :: "string list" where
  "headingTags = [''h1'', ''h2'', ''h3'', ''h4'', ''h5'', ''h6'']"

text \<open>
  The heading of both the block dispatcher and the tree walker: level
  \<open>Math.min(parseInt(tagName.charAt(1)), 6)\<close>, alignment
  \<open>headingStyle?.textAlignment || 'AUTO'\<close>.
\<close>

definition headingNode :: "string \<Rightarrow> string \<Rightarrow> (string \<times> string) list \<Rightarrow> rnode list \<Rightarrow> rnode" where
  "headingNode i tag as ns =
     HEADING i (min_6 (parseInt (take 1 (drop 1 tag))))
       (case processNodeStyle as of
          None \<Rightarrow> AUTO
        | Some st \<Rightarrow> (case style_textAlignment st of None \<Rightarrow> AUTO | Some a \<Rightarrow> a))
       ns"

text \<open>The \<open>paragraphData\<close> of a \<open>p\<close>, set when the element has a style.\<close>

definition p_data :: "styleData option \<Rightarrow> paragraphData option" where
  "p_data pStyle =
     (case pStyle of
        None \<Rightarrow> None
      | Some st \<Rightarrow> Some \<lparr>
          textAlignment = (case style_textAlignment st of None \<Rightarrow> AUTO | Some a \<Rightarrow> a),
          indentation = (if style_margin st \<or> style_padding st then Some 1 else None) \<rparr>)"

text \<open>The \<open>paragraphData\<close> of a \<open>div\<close> without block children, set when its class aligns.\<close>

definition div_data :: "classData option \<Rightarrow> paragraphData option" where
  "div_data divClass =
     (case divClass of
        None \<Rightarrow> None
      | Some c \<Rightarrow> (case class_textAlignment c of
                    None \<Rightarrow> None
                  | Some a \<Rightarrow> Some \<lparr>textAlignment = a, indentation = None\<rparr>))"

definition isSection :: "classData option \<Rightarrow> bool" where
  "isSection divClass = (case divClass of None \<Rightarrow> False | Some c \<Rightarrow> class_isSection c)"

definition inlineBlockTags :: "string list" where
  "inlineBlockTags = [''p'', ''h1'', ''h2'', ''h3'', ''h4'', ''h5'', ''h6'', ''div'',
     ''blockquote'', ''pre'', ''ul'', ''ol'', ''li'']"

definition divBlockTags :: "string list" where
  "divBlockTags = [''p'', ''h1'', ''h2'', ''h3'', ''h4'', ''h5'', ''h6'', ''div'',
     ''blockquote'', ''pre'', ''ul'', ''ol'', ''table'']"

fun hasBlockChildren :: "dom list \<Rightarrow> bool" where
  "hasBlockChildren [] = False"
| "hasBlockChildren (TextNode t # ks) = hasBlockChildren ks"
| "hasBlockChildren (Element tag as cs # ks) = (tag \<in> set divBlockTags \<or> hasBlockChildren ks)"

text \<open>
  The second loop of \<open>convertNodeToRicos\<close>: two spacing paragraphs for each child that is
  a \<open>div\<close> whose class contains \<open>section\<close> or \<open>container\<close>.
\<close>

definition isSectionDiv :: "dom \<Rightarrow> bool" where
  "isSectionDiv k =
     (case k of
        TextNode t \<Rightarrow> False
      | Element tag as cs \<Rightarrow>
          tag = ''div'' \<and>
          (case getAttribute as ''class'' of
             None \<Rightarrow> False
           | Some c \<Rightarrow> c \<noteq> [] \<and> (str_includes c ''section'' \<or> str_includes c ''container'')))"

fun sectionLoop :: "dom list \<Rightarrow> rng \<Rightarrow> rnode list \<times> rng" where
  "sectionLoop [] r = ([], r)"
| "sectionLoop (k # ks) r =
     (case (if isSectionDiv k then spacings (Suc (Suc 0)) r else ([], r)) of (ss, r1) \<Rightarrow>
      case sectionLoop ks r1 of (rest, r2) \<Rightarrow> (ss @ rest, r2))"

section \<open>Termination measure\<close>

fun height :: "dom \<Rightarrow> nat" and heights :: "dom list \<Rightarrow> nat" where
  "height (TextNode t) = 0"
| "height (Element tag as ks) = Suc (heights ks)"
| "heights [] = 0"
| "heights (k # ks) = max (height k) (heights ks)"

definition eheight :: "element \<Rightarrow> nat" where
  "eheight e = (case e of (tag, as, ks) \<Rightarrow> Suc (heights ks))"

fun eheights :: "element list \<Rightarrow> nat" where
  "eheights [] = 0"
| "eheights (e # es) = max (eheight e) (eheights es)"

section \<open>The converter\<close>

text \<open>
  The mutually recursive functions of the converter. Each \<open>for\<close> loop over a node list
  is a function of its own on the nodes still to visit, and the \<open>switch\<close> on the tag
  of a child element is the function of one child: \<open>inlineLoop\<close> and \<open>inlineChild\<close> for
  \<open>processTextAndInlineElements\<close> (the loop carries the style of the parent), \<open>rowsLoop\<close> and
  \<open>cellsLoop\<close> for \<open>handleTable\<close> (\<open>rowsLoop\<close> returns \<open>tableRows\<close>, \<open>rowsHeight\<close> and
  \<open>maxCols\<close>), \<open>divLoop\<close> for the \<open>div\<close> case of \<open>handleBlockElement\<close>, and \<open>walkLoop\<close>
  and \<open>walkChild\<close> for the first loop of \<open>convertNodeToRicos\<close>, which carries \<open>nodes\<close>
  and \<open>previousWasHeading\<close>; \<open>walkChild\<close> returns the nodes to push and the new flag
  (\<open>previousWasText\<close> is written and never read). In an object literal the \<open>id\<close> is
  generated before the \<open>nodes\<close> are computed.
\<close>

function
  inlineChild :: "element \<Rightarrow> rng \<Rightarrow> rnode list \<times> rng" and
  inlineLoop :: "styleData option \<Rightarrow> dom list \<Rightarrow> rng \<Rightarrow> rnode list \<times> rng" and
  processTextAndInlineElements :: "element \<Rightarrow> rng \<Rightarrow> rnode list \<times> rng" and
  cellsLoop :: "bool \<Rightarrow> element list \<Rightarrow> rng \<Rightarrow> rnode list \<times> rng" and
  rowsLoop :: "(string \<times> element) list \<Rightarrow> rng \<Rightarrow> (rnode list \<times> int list \<times> nat) \<times> rng" and
  handleTable :: "element \<Rightarrow> rng \<Rightarrow> rnode \<times> rng" and
  divLoop :: "dom list \<Rightarrow> rng \<Rightarrow> rnode list \<times> rng" and
  handleBlockElement :: "element \<Rightarrow> rng \<Rightarrow> rnode list \<times> rng" and
  walkChild :: "element \<Rightarrow> rnode list \<Rightarrow> bool \<Rightarrow> rng \<Rightarrow> rnode list \<times> bool \<times> rng" and
  walkLoop :: "dom list \<Rightarrow> rnode list \<Rightarrow> bool \<Rightarrow> rng \<Rightarrow> rnode list \<times> rng" and
  convertNodeToRicos :: "element \<Rightarrow> rng \<Rightarrow> rnode list \<times> rng"
where
  "inlineChild (tag, as, ks) r =
     (if tag = ''strong'' \<or> tag = ''b'' then
        ([TEXT [] (textContent (Element tag as ks)) (Some [BOLD (Exact 700)])], r)
      else if tag = ''em'' \<or> tag = ''i'' then
        ([TEXT [] (textContent (Element tag as ks)) (Some [ITALIC])], r)
      else if tag = ''u'' then
        ([TEXT [] (textContent (Element tag as ks)) (Some [UNDERLINE])], r)
      else if tag = ''a'' then
        ([TEXT [] (textContent (Element tag as ks))
            (Some [LINK (attr_or as ''href'' [])
                     (if getAttribute as ''target'' = Some ''_blank'' then BLANK else SELF)
                     True,
                   UNDERLINE])], r)
      else if tag = ''span'' then processTextAndInlineElements (tag, as, ks) r
      else if tag = ''br'' then ([TEXT [] [CHR 0x0A] None], r)
      else if tag = ''img'' then
        (case generateId r of (i, r1) \<Rightarrow> ([imageNode i as], r1))
      else if tag \<in> set inlineBlockTags then handleBlockElement (tag, as, ks) r
      else processTextAndInlineElements (tag, as, ks) r)"
| "inlineLoop parentStyle [] r = ([], r)"
| "inlineLoop parentStyle (TextNode t # cs) r =
     (case inlineLoop parentStyle cs r of (rest, r1) \<Rightarrow>
        ((if trim t \<noteq> [] then [styledText parentStyle t] else []) @ rest, r1))"
| "inlineLoop parentStyle (Element tag as ks # cs) r =
     (case inlineChild (tag, as, ks) r of (ns, r1) \<Rightarrow>
      case inlineLoop parentStyle cs r1 of (rest, r2) \<Rightarrow> (ns @ rest, r2))"
| "processTextAndInlineElements (tag, as, ks) r = inlineLoop (processNodeStyle as) ks r"
| "cellsLoop isHeaderRow [] r = ([], r)"
| "cellsLoop isHeaderRow ((tag, as, ks) # cs) r =
     (case generateId r of (cid, r1) \<Rightarrow>
      case processTextAndInlineElements (tag, as, ks) r1 of (cellContentNodes, r2) \<Rightarrow>
      case generateId r2 of (pid, r3) \<Rightarrow>
      case cellsLoop isHeaderRow cs r3 of (rest, r4) \<Rightarrow>
        (TABLE_CELL cid
           (case getAttribute as ''colspan'' of
              None \<Rightarrow> None
            | Some c \<Rightarrow> if c = [] then None else Some (parseInt c))
           [PARAGRAPH pid (Some \<lparr>textAlignment = CENTER, indentation = None\<rparr>)
              (if cellContentNodes \<noteq> [] then cellContentNodes
               else [TEXT [] (textContent (Element tag as ks))
                       (if tag = ''th'' \<or> isHeaderRow then Some [BOLD (Exact 700)] else None)])]
         # rest, r4))"
| "rowsLoop [] r = (([], [], 0), r)"
| "rowsLoop ((ptag, row) # rows) r =
     (if cells_of row = [] then rowsLoop rows r
      else
        case cellsLoop (ptag = ''thead'') (cells_of row) r of (rowCells, r1) \<Rightarrow>
        case generateId r1 of (rid, r2) \<Rightarrow>
        case rowsLoop rows r2 of ((tableRows, rowsH, maxCols), r3) \<Rightarrow>
          ((TABLE_ROW rid rowCells # tableRows, 50 # rowsH,
            max (length (cells_of row)) maxCols), r3))"
| "handleTable (tag, as, ks) r =
     (if rows_of (tag, as, ks) = [] then createSpacingParagraph r
      else
        case rowsLoop (rows_of (tag, as, ks)) r of ((tableRows, rowsH, maxCols), r1) \<Rightarrow>
        case generateId r1 of (i, r2) \<Rightarrow>
          (TABLE i
             \<lparr>colsWidthRatio = replicate maxCols 150, rowsHeight = rowsH,
              colsMinWidth = replicate maxCols 140, borderColor = ''#CFCFCF'',
              borderWidth = 1, borderStyle = ''solid''\<rparr>
             tableRows, r2))"
| "divLoop [] r = ([], r)"
| "divLoop (TextNode t # cs) r =
     (case (if trim t \<noteq> [] then
              (case generateId r of (i, r1) \<Rightarrow> ([PARAGRAPH i None [TEXT [] (trim t) None]], r1))
            else ([], r))
      of (ns, r1) \<Rightarrow>
        case divLoop cs r1 of (rest, r2) \<Rightarrow> (ns @ rest, r2))"
| "divLoop (Element tag as ks # cs) r =
     (case convertNodeToRicos (tag, as, ks) r of (ns, r1) \<Rightarrow>
      case divLoop cs r1 of (rest, r2) \<Rightarrow> (ns @ rest, r2))"
| "handleBlockElement (tag, as, ks) r =
     (if tag = ''p'' then
        (case generateId r of (i, r1) \<Rightarrow>
         case processTextAndInlineElements (tag, as, ks) r1 of (ns, r2) \<Rightarrow>
           ([PARAGRAPH i (p_data (processNodeStyle as)) ns], r2))
      else if tag \<in> set headingTags then
        (case spacings (if tag = ''h2'' \<or> tag = ''h3'' then Suc 0 else 0) r of (pre, r1) \<Rightarrow>
         case generateId r1 of (i, r2) \<Rightarrow>
         case processTextAndInlineElements (tag, as, ks) r2 of (ns, r3) \<Rightarrow>
         case spacings (if tag = ''h2'' then Suc (Suc 0) else Suc 0) r3 of (post, r4) \<Rightarrow>
           (pre @ [headingNode i tag as ns] @ post, r4))
      else if tag = ''ul'' then
        (case generateId r of (i, r1) \<Rightarrow>
         case convertNodeToRicos (tag, as, ks) r1 of (ns, r2) \<Rightarrow>
         case createSpacingParagraph r2 of (s, r3) \<Rightarrow> ([BULLETED_LIST i ns, s], r3))
      else if tag = ''ol'' then
        (case generateId r of (i, r1) \<Rightarrow>
         case convertNodeToRicos (tag, as, ks) r1 of (ns, r2) \<Rightarrow>
         case createSpacingParagraph r2 of (s, r3) \<Rightarrow> ([ORDERED_LIST i ns, s], r3))
      else if tag = ''li'' then
        (case generateId r of (i, r1) \<Rightarrow>
         case processTextAndInlineElements (tag, as, ks) r1 of (ns, r2) \<Rightarrow>
           ([LIST_ITEM i ns], r2))
      else if tag = ''blockquote'' then
        (case generateId r of (i, r1) \<Rightarrow>
         case processTextAndInlineElements (tag, as, ks) r1 of (ns, r2) \<Rightarrow>
         case createSpacingParagraph r2 of (s, r3) \<Rightarrow> ([BLOCKQUOTE i ns, s], r3))
      else if tag = ''pre'' \<or> tag = ''code'' then
        (case generateId r of (i, r1) \<Rightarrow>
         case createSpacingParagraph r1 of (s, r2) \<Rightarrow>
           ([CODE_BLOCK i [TEXT [] (textContent (Element tag as ks)) None], s], r2))
      else if tag = ''div'' then
        (case spacings (if isSection (processNodeClass as) then Suc (Suc 0) else 0) r
         of (pre, r1) \<Rightarrow>
         case (if hasBlockChildren ks then divLoop ks r1
               else
                 (case generateId r1 of (i, r2) \<Rightarrow>
                  case processTextAndInlineElements (tag, as, ks) r2 of (ns, r3) \<Rightarrow>
                    ([PARAGRAPH i (div_data (processNodeClass as)) ns], r3)))
         of (body, r4) \<Rightarrow>
         case spacings (if isSection (processNodeClass as) then Suc (Suc 0) else 0) r4
         of (post, r5) \<Rightarrow> (pre @ body @ post, r5))
      else
        (case generateId r of (i, r1) \<Rightarrow>
         case processTextAndInlineElements (tag, as, ks) r1 of (ns, r2) \<Rightarrow>
           ([PARAGRAPH i None ns], r2)))"
| "walkChild (tag, as, ks) nodes previousWasHeading r =
     (if tag = ''p'' then
        (case handleBlockElement (tag, as, ks) r of (ns, r1) \<Rightarrow> (ns, False, r1))
      else if tag \<in> set headingTags then
        (case spacings (if nodes \<noteq> [] \<and> \<not> previousWasHeading then Suc 0 else 0) r
         of (pre, r1) \<Rightarrow>
         case generateId r1 of (i, r2) \<Rightarrow>
         case processTextAndInlineElements (tag, as, ks) r2 of (ns, r3) \<Rightarrow>
         case createSpacingParagraph r3 of (s, r4) \<Rightarrow>
           (pre @ [headingNode i tag as ns, s], True, r4))
      else if tag = ''div'' then
        (case convertNodeToRicos (tag, as, ks) r of (ns, r1) \<Rightarrow>
           (ns, previousWasHeading, r1))
      else if tag = ''table'' then
        (case handleTable (tag, as, ks) r of (tableNode, r1) \<Rightarrow>
         case createSpacingParagraph r1 of (s, r2) \<Rightarrow>
           ([tableNode, s], previousWasHeading, r2))
      else if tag \<in> set [''thead'', ''tbody'', ''tfoot'', ''tr''] then
        (case convertNodeToRicos (tag, as, ks) r of (ns, r1) \<Rightarrow>
           (ns, previousWasHeading, r1))
      else if tag \<in> set [''th'', ''td'', ''strong'', ''em'', ''a'', ''b'', ''i'', ''u'',
                          ''span''] then
        (case processTextAndInlineElements (tag, as, ks) r of (ns, r1) \<Rightarrow>
           (ns, previousWasHeading, r1))
      else if tag = ''img'' then
        (case generateId r of (i, r1) \<Rightarrow> ([imageNode i as], previousWasHeading, r1))
      else if tag = ''ul'' then
        (case generateId r of (i, r1) \<Rightarrow>
         case convertNodeToRicos (tag, as, ks) r1 of (ns, r2) \<Rightarrow>
           ([BULLETED_LIST i ns], previousWasHeading, r2))
      else if tag = ''ol'' then
        (case generateId r of (i, r1) \<Rightarrow>
         case convertNodeToRicos (tag, as, ks) r1 of (ns, r2) \<Rightarrow>
           ([ORDERED_LIST i ns], previousWasHeading, r2))
      else if tag = ''li'' then
        (case generateId r of (i, r1) \<Rightarrow>
         case processTextAndInlineElements (tag, as, ks) r1 of (ns, r2) \<Rightarrow>
           ([LIST_ITEM i ns], previousWasHeading, r2))
      else if tag = ''blockquote'' then
        (case generateId r of (i, r1) \<Rightarrow>
         case processTextAndInlineElements (tag, as, ks) r1 of (ns, r2) \<Rightarrow>
           ([BLOCKQUOTE i ns], previousWasHeading, r2))
      else if tag = ''pre'' \<or> tag = ''code'' then
        (case generateId r of (i, r1) \<Rightarrow>
           ([CODE_BLOCK i [TEXT [] (textContent (Element tag as ks)) None]],
            previousWasHeading, r1))
      else if tag = ''hr'' then
        (case generateId r of (i, r1) \<Rightarrow> ([DIVIDER i], previousWasHeading, r1))
      else if tag = ''br'' then
        (case generateId r of (i, r1) \<Rightarrow>
           ([PARAGRAPH i None [TEXT [] '' '' None]], previousWasHeading, r1))
      else
        (case handleBlockElement (tag, as, ks) r of (ns, r1) \<Rightarrow>
           (ns, previousWasHeading, r1)))"
| "walkLoop [] nodes previousWasHeading r = (nodes, r)"
| "walkLoop (TextNode t # cs) nodes previousWasHeading r =
     (if trim t \<noteq> [] then walkLoop cs (nodes @ [TEXT [] t None]) False r
      else walkLoop cs nodes previousWasHeading r)"
| "walkLoop (Element tag as ks # cs) nodes previousWasHeading r =
     (case walkChild (tag, as, ks) nodes previousWasHeading r of (ns, pwh, r1) \<Rightarrow>
        walkLoop cs (nodes @ ns) pwh r1)"
| "convertNodeToRicos (tag, as, ks) r =
     (case walkLoop ks [] False r of (nodes, r1) \<Rightarrow>
      case sectionLoop ks r1 of (ss, r2) \<Rightarrow> (nodes @ ss, r2))"
  by pat_completeness auto

text \<open>
  Termination: a call goes to an element below the current one, to the same element in
  a function further down the call chain, or to the rest of the list being visited.
  Every element that \<open>querySelectorAll\<close> returns lies below the element it is called on.
\<close>

lemma heights_descendants:
  "(p, e) \<in> set (descendants ptag ks) \<Longrightarrow> eheight e \<le> heights ks"
proof (induction ptag ks arbitrary: p e rule: descendants.induct)
  case (3 ptag tag as cs ks)
  from "3.prems" consider "e = (tag, as, cs)" | "(p, e) \<in> set (descendants tag cs)"
    | "(p, e) \<in> set (descendants ptag ks)" by auto
  then show ?case
  proof cases
    case 1
    then show ?thesis by (simp add: eheight_def)
  next
    case 2
    from "3.IH"(1)[OF 2] show ?thesis by simp
  next
    case 3
    from "3.IH"(2)[OF 3] show ?thesis by simp
  qed
qed simp_all

lemma eheights_le: "(\<And>e. e \<in> set es \<Longrightarrow> eheight e \<le> n) \<Longrightarrow> eheights es \<le> n"
  by (induction es) auto

lemma eheights_rows: "eheights (map snd (rows_of (tag, as, ks))) \<le> heights ks"
  by (rule eheights_le) (auto simp: rows_of_def dest: heights_descendants)

lemma eheights_cells: "eheights (cells_of e) < eheight e"
proof -
  obtain tag as ks where e: "e = (tag, as, ks)" by (cases e) auto
  have "eheights (cells_of e) \<le> heights ks"
    by (rule eheights_le) (auto simp: cells_of_def e dest: heights_descendants)
  then show ?thesis by (simp add: e eheight_def)
qed

text \<open>
  The measure, on the arguments of the eleven functions in the order of their
  declaration: first the height of the element or of the list (with an offset that orders
  the functions that pass the same element on), then the length of the list.
\<close>

definition conv_measure where
  "conv_measure x =
     (case x of
        Inl (Inl (Inl (e, r))) \<Rightarrow> (8 * eheight e + 7, 0)
      | Inl (Inl (Inr (ps, cs, r))) \<Rightarrow> (8 * heights cs + 8, length cs)
      | Inl (Inr (Inl (e, r))) \<Rightarrow> (8 * eheight e + 2, 0)
      | Inl (Inr (Inr (Inl (hr, es, r)))) \<Rightarrow> (8 * eheights es + 8, length es)
      | Inl (Inr (Inr (Inr (rows, r)))) \<Rightarrow> (8 * eheights (map snd rows) + 8, length rows)
      | Inr (Inl (Inl (e, r))) \<Rightarrow> (8 * eheight e + 6, 0)
      | Inr (Inl (Inr (Inl (cs, r)))) \<Rightarrow> (8 * heights cs + 8, length cs)
      | Inr (Inl (Inr (Inr (e, r)))) \<Rightarrow> (8 * eheight e + 6, 0)
      | Inr (Inr (Inl (e, nodes, pwh, r))) \<Rightarrow> (8 * eheight e + 7, 0)
      | Inr (Inr (Inr (Inl (cs, nodes, pwh, r)))) \<Rightarrow> (8 * heights cs + 8, length cs)
      | Inr (Inr (Inr (Inr (e, r)))) \<Rightarrow> (8 * eheight e + 4, 0))"

termination inlineChild
  apply (relation "inv_image (less_than <*lex*> less_than) conv_measure")
  apply (intro wf_inv_image wf_lex_prod wf_less_than)
  apply (simp_all (no_asm) add: conv_measure_def eheight_def nat_mult_max_right less_max_iff_disj)
  apply (simp_all (no_asm) add: max_def)
  subgoal for row rows using eheights_cells[of row] by (simp add: eheight_def)
  subgoal for tag as ks using eheights_rows[of tag as ks] by simp
  done

declare inlineChild.simps [simp del] processTextAndInlineElements.simps [simp del]
  handleTable.simps [simp del] handleBlockElement.simps [simp del] walkChild.simps [simp del]
  convertNodeToRicos.simps [simp del]

section \<open>Spacing normalisation and the entry point\<close>

text \<open>
  The test for a spacing paragraph, written out four times in \<open>htmlToRicos\<close>: a
  \<open>PARAGRAPH\<close> with exactly one node, a \<open>TEXT\<close> whose text is one space.
\<close>

definition isSpaceText :: "rnode \<Rightarrow> bool" where
  "isSpaceText n = (case n of TEXT i t ds \<Rightarrow> t = '' '' | _ \<Rightarrow> False)"

definition isSpacing :: "rnode \<Rightarrow> bool" where
  "isSpacing n =
     (case n of
        PARAGRAPH i d ns \<Rightarrow> (case ns of [x] \<Rightarrow> isSpaceText x | _ \<Rightarrow> False)
      | _ \<Rightarrow> False)"

text \<open>
  The loop that builds \<open>enhancedNodes\<close>, on the nodes from index \<open>i\<close> on;
  \<open>previousType\<close> is \<open>None\<close> for \<open>null\<close>.
\<close>

fun enhanceLoop ::
  "rnode list \<Rightarrow> nat \<Rightarrow> string option \<Rightarrow> rnode list \<Rightarrow> rng \<Rightarrow> rnode list \<times> rng" where
  "enhanceLoop [] i previousType enhanced r = (enhanced, r)"
| "enhanceLoop (node # rest) i previousType enhanced r =
     (if isSpacing node \<and> previousType = Some ''SPACING'' then
        enhanceLoop rest (Suc i) previousType enhanced r
      else if node_type node = ''HEADING'' then
        (case spacings (if 0 < i \<and> previousType \<noteq> Some ''SPACING'' then Suc 0 else 0) r
         of (pre, r1) \<Rightarrow>
         case spacings
                (if (case rest of [] \<Rightarrow> True | nextNode # ns \<Rightarrow> \<not> isSpacing nextNode)
                 then Suc 0 else 0) r1
         of (post, r2) \<Rightarrow>
           enhanceLoop rest (Suc i) (Some ''HEADING'') (enhanced @ pre @ [node] @ post) r2)
      else if isSpacing node then
        enhanceLoop rest (Suc i) (Some ''SPACING'') (enhanced @ [node]) r
      else
        enhanceLoop rest (Suc i) (Some (node_type node)) (enhanced @ [node]) r)"

text \<open>
  \<open>startIndex\<close> counts the leading spacing paragraphs; \<open>endIndex + 1\<close> is the length
  without the trailing ones; the nodes from \<open>startIndex\<close> to \<open>endIndex\<close> are kept.
\<close>

definition cleanNodes :: "rnode list \<Rightarrow> rnode list" where
  "cleanNodes enhanced =
     (let startIndex = length (takeWhile isSpacing enhanced);
          endIndex1 = length enhanced - length (takeWhile isSpacing (rev enhanced))
      in drop startIndex (take endIndex1 enhanced))"

text \<open>
  The entry point, from the parsed \<open>body\<close> on: sanitizing and parsing the markup string
  are the work of the collaborators.
\<close>

definition htmlToRicos :: "element \<Rightarrow> rng \<Rightarrow> document \<times> rng" where
  "htmlToRicos body r =
     (case convertNodeToRicos body r of (nodes, r1) \<Rightarrow>
      case enhanceLoop nodes 0 None [] r1 of (enhanced, r2) \<Rightarrow>
        (Document (cleanNodes enhanced), r2))"

section \<open>Inputs and predicates of the properties\<close>

text \<open>An identifier source that gives the same identifier every time.\<close>

definition fixedIds :: "string \<Rightarrow> rng" where
  "fixedIds s n = s"

text \<open>A child that is a text node with nothing but white space.\<close>

definition blankText :: "dom \<Rightarrow> bool" where
  "blankText k = (case k of TextNode t \<Rightarrow> trim t = [] | Element tag as ks \<Rightarrow> False)"

text \<open>The nodes of a Document.\<close>

fun doc_nodes :: "document \<Rightarrow> rnode list" where
  "doc_nodes (Document ns) = ns"

text \<open>No two neighbours of a node sequence are both spacing paragraphs.\<close>

fun no_adjacent_spacing :: "rnode list \<Rightarrow> bool" where
  "no_adjacent_spacing [] = True"
| "no_adjacent_spacing [x] = True"
| "no_adjacent_spacing (x # y # zs) =
     (\<not> (isSpacing x \<and> isSpacing y) \<and> no_adjacent_spacing (y # zs))"

text \<open>
  Every heading of a node sequence has a next node, and it is a spacing paragraph: what
  the tree walker guarantees and the normaliser relies on.
\<close>

fun headings_spaced :: "rnode list \<Rightarrow> bool" where
  "headings_spaced [] = True"
| "headings_spaced [x] = (node_type x \<noteq> ''HEADING'')"
| "headings_spaced (x # y # zs) = ((node_type x = ''HEADING'' \<longrightarrow> isSpacing y) \<and> headings_spaced (y # zs))"

text \<open>The number of cells of an emitted table row, and the largest over a list of rows.\<close>

fun row_cells :: "rnode \<Rightarrow> nat" where
  "row_cells (TABLE_ROW i cells) = length cells"
| "row_cells n = 0"

fun max_cells :: "rnode list \<Rightarrow> nat" where
  "max_cells [] = 0"
| "max_cells (row # rows) = max (row_cells row) (max_cells rows)"

text \<open>
  The numbers of cells of the rows of a source table that have a cell, in document
  order; the largest of a list of numbers; a node that is a table row.
\<close>

definition cell_counts :: "element \<Rightarrow> nat list" where
  "cell_counts e =
     filter (\<lambda>n. 0 < n) (map (\<lambda>(p, row). length (cells_of row)) (rows_of e))"

fun max_list :: "nat list \<Rightarrow> nat" where
  "max_list [] = 0"
| "max_list (n # ns) = max n (max_list ns)"

definition is_table_row :: "rnode \<Rightarrow> bool" where
  "is_table_row n = (case n of TABLE_ROW i cells \<Rightarrow> True | _ \<Rightarrow> False)"

text \<open>
  The value of a digit string in a radix, most significant digit first, and the integer
  it makes under a sign.
\<close>

fun positional :: "nat \<Rightarrow> string \<Rightarrow> nat" where
  "positional b [] = 0"
| "positional b (c # cs) = digit_val c * b ^ length cs + positional b cs"

definition signed :: "string \<Rightarrow> nat \<Rightarrow> int" where
  "signed sg n = (if sg = ''-'' then - int n else int n)"

text \<open>
  An attribute value that reads as an integer: white space \<open>ws\<close>, a sign \<open>sg\<close> that
  may be missing, a prefix \<open>pre\<close> that is \<open>0x\<close> or \<open>0X\<close> for radix 16 and missing for
  radix 10, digits \<open>ds\<close> of the radix, at least one, and a \<open>rest\<close> that does not go on
  with a digit. Without a prefix the digits and the rest do not start with \<open>0x\<close>,
  which would be the prefix.
\<close>

definition integer_parts ::
  "string \<Rightarrow> string \<Rightarrow> nat \<Rightarrow> string \<Rightarrow> string \<Rightarrow> string \<Rightarrow> bool" where
  "integer_parts ws sg radix pre ds rest =
     (list_all is_ws ws
      \<and> sg \<in> set [[], ''-'', ''+'']
      \<and> (radix, pre) \<in> set [(10, []), (16, ''0x''), (16, ''0X'')]
      \<and> ds \<noteq> []
      \<and> list_all (\<lambda>c. digit_val c < radix) ds
      \<and> (rest = [] \<or> \<not> digit_val (hd rest) < radix)
      \<and> (pre = [] \<longrightarrow> \<not> starts_with (ds @ rest) ''0x'' \<and> \<not> starts_with (ds @ rest) ''0X''))"

text \<open>
  An attribute value that reads as no integer: after the white space, the sign and the
  prefix, each of which may be missing, the \<open>rest\<close> starts with no digit of the radix.
  With neither sign nor prefix the rest does not start with white space or a sign,
  which would belong to \<open>ws\<close> and \<open>sg\<close>.
\<close>

definition no_integer :: "string \<Rightarrow> string \<Rightarrow> string \<Rightarrow> string \<Rightarrow> bool" where
  "no_integer ws sg pre rest =
     (list_all is_ws ws
      \<and> sg \<in> set [[], ''-'', ''+'']
      \<and> pre \<in> set [[], ''0x'', ''0X'']
      \<and> (rest = [] \<or> \<not> digit_val (hd rest) < (if pre = [] then 10 else 16))
      \<and> (sg = [] \<and> pre = [] \<and> rest \<noteq> [] \<longrightarrow> \<not> is_ws (hd rest) \<and> hd rest \<notin> set ''-+''))"

text \<open>
  A text that is not blank, or one of the two markers: one space, one newline.
\<close>

definition marker_or_nonblank :: "string \<Rightarrow> bool" where
  "marker_or_nonblank t = (trim t \<noteq> [] \<or> t = '' '' \<or> t = [CHR 0x0A])"

text \<open>
  The decorations of a leaf that holds the flattened text of \<open>strong\<close>/\<open>b\<close>,
  \<open>em\<close>/\<open>i\<close>, \<open>u\<close> or \<open>a\<close>.
\<close>

fun flat_decorations :: "decoration list \<Rightarrow> bool" where
  "flat_decorations [BOLD w] = (w = Exact 700)"
| "flat_decorations [ITALIC] = True"
| "flat_decorations [UNDERLINE] = True"
| "flat_decorations [LINK u t n, UNDERLINE] = True"
| "flat_decorations ds = False"

text \<open>
  A node list that is one undecorated Text leaf, as under a CodeBlock; the nodes of a
  table cell whose paragraph holds one undecorated Text leaf, as the fallback has it.
\<close>

definition is_plain_text :: "rnode \<Rightarrow> bool" where
  "is_plain_text n = (case n of TEXT i t d \<Rightarrow> d = None | _ \<Rightarrow> False)"

definition single_plain_text :: "rnode list \<Rightarrow> bool" where
  "single_plain_text ns = (case ns of [n] \<Rightarrow> is_plain_text n | _ \<Rightarrow> False)"

definition cell_fallback :: "rnode list \<Rightarrow> bool" where
  "cell_fallback ns =
     (case ns of [n] \<Rightarrow> (case n of PARAGRAPH i d ks \<Rightarrow> single_plain_text ks | _ \<Rightarrow> False)
      | _ \<Rightarrow> False)"

text \<open>
  Every Text leaf of the tree is not blank or is a marker, apart from the leaves that
  carry the text content of an element as it is: those with the decorations of flattened
  inline markup, the leaf of a CodeBlock, and the fallback leaf of a table cell.
\<close>

fun text_ok :: "rnode \<Rightarrow> bool" and texts_ok :: "rnode list \<Rightarrow> bool" where
  "text_ok (TEXT i t d) =
     (marker_or_nonblank t \<or> (case d of None \<Rightarrow> False | Some ds \<Rightarrow> flat_decorations ds))"
| "text_ok (CODE_BLOCK i ns) = (single_plain_text ns \<or> texts_ok ns)"
| "text_ok (TABLE_CELL i c ns) = (cell_fallback ns \<or> texts_ok ns)"
| "text_ok (PARAGRAPH i d ns) = texts_ok ns"
| "text_ok (HEADING i l a ns) = texts_ok ns"
| "text_ok (BULLETED_LIST i ns) = texts_ok ns"
| "text_ok (ORDERED_LIST i ns) = texts_ok ns"
| "text_ok (LIST_ITEM i ns) = texts_ok ns"
| "text_ok (BLOCKQUOTE i ns) = texts_ok ns"
| "text_ok (TABLE i d ns) = texts_ok ns"
| "text_ok (TABLE_ROW i ns) = texts_ok ns"
| "text_ok (IMAGE i c u w h) = True"
| "text_ok (DIVIDER i) = True"
| "texts_ok [] = True"
| "texts_ok (n # ns) = (text_ok n \<and> texts_ok ns)"

text \<open>A node, and a Document, with every identifier erased.\<close>

fun strip_ids :: "rnode \<Rightarrow> rnode" where
  "strip_ids (PARAGRAPH i d ns) = PARAGRAPH [] d (map strip_ids ns)"
| "strip_ids (HEADING i l a ns) = HEADING [] l a (map strip_ids ns)"
| "strip_ids (BULLETED_LIST i ns) = BULLETED_LIST [] (map strip_ids ns)"
| "strip_ids (ORDERED_LIST i ns) = ORDERED_LIST [] (map strip_ids ns)"
| "strip_ids (LIST_ITEM i ns) = LIST_ITEM [] (map strip_ids ns)"
| "strip_ids (BLOCKQUOTE i ns) = BLOCKQUOTE [] (map strip_ids ns)"
| "strip_ids (CODE_BLOCK i ns) = CODE_BLOCK [] (map strip_ids ns)"
| "strip_ids (TABLE i d ns) = TABLE [] d (map strip_ids ns)"
| "strip_ids (TABLE_ROW i ns) = TABLE_ROW [] (map strip_ids ns)"
| "strip_ids (TABLE_CELL i c ns) = TABLE_CELL [] c (map strip_ids ns)"
| "strip_ids (IMAGE i c u w h) = IMAGE [] c u w h"
| "strip_ids (DIVIDER i) = DIVIDER []"
| "strip_ids (TEXT i t d) = TEXT [] t d"

fun strip_doc :: "document \<Rightarrow> document" where
  "strip_doc (Document ns) = Document (map strip_ids ns)"

section \<open>Bodies without elements\<close>

lemma walkLoop_blank:
  "list_all blankText ks \<Longrightarrow> walkLoop ks nodes pwh r = (nodes, r)"
  by (induction ks) (auto simp: blankText_def split: dom.splits)

lemma sectionLoop_blank:
  "list_all blankText ks \<Longrightarrow> sectionLoop ks r = ([], r)"
  by (induction ks) (auto simp: blankText_def isSectionDiv_def split: dom.splits)

text \<open>
  C9: when the body has no child, or only text children that are blank, the entry point
  returns a Document with no node: nothing is raised and no placeholder is emitted.
\<close>

theorem empty_body_gives_empty_document:
  "list_all blankText ks \<Longrightarrow> fst (htmlToRicos (tag, as, ks) r) = Document []"
  by (simp add: htmlToRicos_def convertNodeToRicos.simps walkLoop_blank sectionLoop_blank
      cleanNodes_def)

theorem empty_body_gives_empty_document_witness:
  "list_all blankText [TextNode ''  '', TextNode [CHR 0x0A]] \<and>
   fst (htmlToRicos (''body'', [], [TextNode ''  '', TextNode [CHR 0x0A]]) (fixedIds ''id''))
     = Document []"
  using empty_body_gives_empty_document
    [of "[TextNode ''  '', TextNode [CHR 0x0A]]" "''body''" "[]" "fixedIds ''id''"]
  by (simp add: blankText_def trim_def is_ws_def)

text \<open>
  C2, as the code has it: a body whose only child is a non-blank text node gives a
  Document with exactly one node, the undecorated Text leaf holding that text. The leaf
  is not wrapped in a Paragraph, and there is no spacing node.
\<close>

theorem plain_text_body:
  "trim t \<noteq> [] \<Longrightarrow> fst (htmlToRicos (tag, as, [TextNode t]) r) = Document [TEXT [] t None]"
  by (simp add: htmlToRicos_def convertNodeToRicos.simps isSectionDiv_def isSpacing_def
      cleanNodes_def)

theorem plain_text_body_witness:
  "trim ''hello'' \<noteq> [] \<and>
   fst (htmlToRicos (''body'', [], [TextNode ''hello'']) (fixedIds ''id''))
     = Document [TEXT [] ''hello'' None]"
  using plain_text_body [of "''hello''" "''body''" "[]" "fixedIds ''id''"]
  by (simp add: trim_def is_ws_def)

text \<open>
  C2 as stated fails: for the body \<open>hello\<close> the only node of the Document is a Text
  leaf, not a Paragraph.
\<close>

theorem plain_text_not_paragraph:
  "fst (htmlToRicos (''body'', [], [TextNode ''hello'']) (fixedIds ''id''))
     = Document [TEXT [] ''hello'' None]
   \<and> node_type (TEXT [] ''hello'' None) \<noteq> ''PARAGRAPH''"
  by code_simp

section \<open>Anchors\<close>

text \<open>
  C1: for the body \<open><a href="http://x.com">t</a>\<close> the tree walker hands the anchor
  itself to \<open>processTextAndInlineElements\<close>, which looks at the children of the anchor
  only: the Text leaf comes out with no decorations.
\<close>

theorem top_level_anchor_loses_link:
  "fst (htmlToRicos
          (''body'', [], [Element ''a'' [(''href'', ''http://x.com'')] [TextNode ''t'']])
          (fixedIds ''id''))
     = Document [TEXT [] ''t'' None]"
  by code_simp

text \<open>The same anchor inside a \<open>p\<close> gets the Link and Underline decorations.\<close>

lemma anchor_in_paragraph_keeps_link:
  "fst (htmlToRicos
          (''body'', [],
           [Element ''p'' [] [Element ''a'' [(''href'', ''http://x.com'')] [TextNode ''t'']]])
          (fixedIds ''id''))
     = Document
         [PARAGRAPH ''id'' None
            [TEXT [] ''t'' (Some [LINK ''http://x.com'' SELF True, UNDERLINE])]]"
  by code_simp

section \<open>Tables\<close>

text \<open>
  C3: for \<open><table><tr><th>H</th></tr><tr><td>C</td></tr></table>\<close>, which the parser
  reads with a \<open>tbody\<close> around the rows, the Text leaf of the header cell carries no
  Bold decoration: bold is attached only to the fallback leaf of a cell whose inline
  content is empty.
\<close>

theorem header_cell_not_bold:
  "fst (htmlToRicos
          (''body'', [],
           [Element ''table'' []
              [Element ''tbody'' []
                 [Element ''tr'' [] [Element ''th'' [] [TextNode ''H'']],
                  Element ''tr'' [] [Element ''td'' [] [TextNode ''C'']]]]])
          (fixedIds ''id''))
     = Document
         [TABLE ''id''
            \<lparr>colsWidthRatio = [150], rowsHeight = [50, 50], colsMinWidth = [140],
             borderColor = ''#CFCFCF'', borderWidth = 1, borderStyle = ''solid''\<rparr>
            [TABLE_ROW ''id''
               [TABLE_CELL ''id'' None
                  [PARAGRAPH ''id'' (Some \<lparr>textAlignment = CENTER, indentation = None\<rparr>)
                     [TEXT [] ''H'' None]]],
             TABLE_ROW ''id''
               [TABLE_CELL ''id'' None
                  [PARAGRAPH ''id'' (Some \<lparr>textAlignment = CENTER, indentation = None\<rparr>)
                     [TEXT [] ''C'' None]]]]]"
  by code_simp

section \<open>Sections\<close>

text \<open>
  C5: for a section \<open>div\<close> followed by a \<open>p\<close>, the two extra spacing paragraphs of the
  tree walker come after the nodes of the \<open>p\<close>, at the end of the sequence.
\<close>

theorem section_spacing_at_end:
  "fst (convertNodeToRicos
          (''body'', [],
           [Element ''div'' [(''class'', ''section'')] [Element ''p'' [] [TextNode ''x'']],
            Element ''p'' [] [TextNode ''y'']])
          (fixedIds ''id''))
     = [PARAGRAPH ''id'' None [TEXT [] ''x'' None],
        PARAGRAPH ''id'' None [TEXT [] ''y'' None],
        PARAGRAPH ''id'' None [TEXT [] '' '' None],
        PARAGRAPH ''id'' None [TEXT [] '' '' None]]"
  by code_simp

section \<open>Headings are followed by spacing in the output of the tree walker\<close>

lemma headings_spaced_append: "headings_spaced xs \<Longrightarrow> headings_spaced ys \<Longrightarrow> headings_spaced (xs @ ys)"
proof (induction xs rule: headings_spaced.induct)
  case (2 x)
  then show ?case by (cases ys) auto
qed auto

lemma headings_spaced_tl: "headings_spaced (x # xs) \<Longrightarrow> headings_spaced xs"
  by (cases xs) auto

lemma headings_spaced_Cons_nonheading [simp]:
  "node_type x \<noteq> ''HEADING'' \<Longrightarrow> headings_spaced (x # xs) = headings_spaced xs"
  by (cases xs) auto

lemma isSpacing_csp [simp]: "isSpacing (fst (createSpacingParagraph r))"
  by (simp add: createSpacingParagraph_def generateId_def isSpacing_def isSpaceText_def)

lemma node_type_csp [simp]: "node_type (fst (createSpacingParagraph r)) = ''PARAGRAPH''"
  by (simp add: createSpacingParagraph_def generateId_def)

lemma spacings_Suc:
  "fst (spacings (Suc n) r) =
     fst (createSpacingParagraph r) # fst (spacings n (snd (createSpacingParagraph r)))"
  by (simp add: split_beta)

lemma spacings_one: "fst (spacings (Suc 0) r) = [fst (createSpacingParagraph r)]"
  by (simp add: split_beta)

lemma headings_spaced_spacings [simp]: "headings_spaced (fst (spacings n r))"
  by (induction n arbitrary: r) (simp_all add: split_beta)

lemma headings_spaced_heading_spacings: "headings_spaced (HEADING i l a ns # fst (spacings (Suc n) r))"
  using headings_spaced_spacings[of "Suc n" r]
  by (simp add: spacings_Suc del: spacings.simps headings_spaced_spacings)

lemma headings_spaced_sectionLoop [simp]: "headings_spaced (fst (sectionLoop ks r))"
  by (induction ks arbitrary: r)
     (auto simp: split_beta intro!: headings_spaced_append simp del: spacings.simps)

lemma handleTable_not_heading: "node_type (fst (handleTable e r)) \<noteq> ''HEADING''"
  by (cases e) (auto simp: split_beta handleTable.simps)

lemma child_height: "Element t a k \<in> set ks \<Longrightarrow> heights k < heights ks"
  by (induction ks) (auto simp: less_max_iff_disj)

lemma node_type_styledText [simp]: "node_type (styledText ps t) = ''TEXT''"
  by (simp add: styledText_def)

lemma headings_spaced_inlineLoop:
  assumes "\<And>t a k r. Element t a k \<in> set cs \<Longrightarrow> headings_spaced (fst (inlineChild (t, a, k) r))"
  shows "headings_spaced (fst (inlineLoop ps cs r))"
  using assms
proof (induction cs arbitrary: r)
  case (Cons c cs)
  then show ?case by (cases c) (auto simp: split_beta intro!: headings_spaced_append)
qed simp

lemma headings_spaced_divLoop:
  assumes "\<And>t a k r. Element t a k \<in> set cs \<Longrightarrow>
             headings_spaced (fst (convertNodeToRicos (t, a, k) r))"
  shows "headings_spaced (fst (divLoop cs r))"
  using assms
proof (induction cs arbitrary: r)
  case (Cons c cs)
  then show ?case by (cases c) (auto simp: split_beta generateId_def intro!: headings_spaced_append)
qed simp

lemma headings_spaced_walkLoop:
  assumes "\<And>t a k nodes pwh r. Element t a k \<in> set cs \<Longrightarrow>
             headings_spaced (fst (walkChild (t, a, k) nodes pwh r))"
    and "headings_spaced nodes"
  shows "headings_spaced (fst (walkLoop cs nodes pwh r))"
  using assms
proof (induction cs arbitrary: nodes pwh r)
  case (Cons c cs)
  then show ?case by (cases c) (auto simp: split_beta intro!: Cons.IH headings_spaced_append)
qed simp

text \<open>
  By induction on the height of the element: the children come first, then the
  functions of the element in the order in which they call each other.
\<close>

lemma headings_spaced_elements:
  "(\<forall>r. headings_spaced (fst (processTextAndInlineElements (tag, as, ks) r))) \<and>
   (\<forall>r. headings_spaced (fst (convertNodeToRicos (tag, as, ks) r))) \<and>
   (\<forall>r. headings_spaced (fst (handleBlockElement (tag, as, ks) r))) \<and>
   (\<forall>r. headings_spaced (fst (inlineChild (tag, as, ks) r))) \<and>
   (\<forall>nodes pwh r. headings_spaced (fst (walkChild (tag, as, ks) nodes pwh r)))"
proof (induction "heights ks" arbitrary: tag as ks rule: less_induct)
  case less
  have kids: "\<And>t a k. Element t a k \<in> set ks \<Longrightarrow>
      (\<forall>r. headings_spaced (fst (inlineChild (t, a, k) r))) \<and>
      (\<forall>r. headings_spaced (fst (convertNodeToRicos (t, a, k) r))) \<and>
      (\<forall>nodes pwh r. headings_spaced (fst (walkChild (t, a, k) nodes pwh r)))"
    using less[OF child_height] by blast
  have pt: "\<And>tg r. headings_spaced (fst (processTextAndInlineElements (tg, as, ks) r))"
    by (simp add: processTextAndInlineElements.simps headings_spaced_inlineLoop kids)
  have cn: "\<And>tg r. headings_spaced (fst (convertNodeToRicos (tg, as, ks) r))"
    by (simp add: convertNodeToRicos.simps split_beta headings_spaced_append headings_spaced_walkLoop kids)
  have dl: "\<And>r. headings_spaced (fst (divLoop ks r))"
    by (simp add: headings_spaced_divLoop kids)
  have hb: "\<And>tg r. headings_spaced (fst (handleBlockElement (tg, as, ks) r))"
    by (simp add: handleBlockElement.simps split_beta generateId_def headingNode_def
        headings_spaced_heading_spacings headings_spaced_append pt cn dl del: spacings.simps)
  have ic: "\<And>r. headings_spaced (fst (inlineChild (tag, as, ks) r))"
    by (simp add: inlineChild.simps split_beta generateId_def imageNode_def pt hb)
  have wc: "\<And>nodes pwh r. headings_spaced (fst (walkChild (tag, as, ks) nodes pwh r))"
    by (simp add: walkChild.simps split_beta generateId_def imageNode_def headingNode_def
        handleTable_not_heading headings_spaced_append pt hb cn del: spacings.simps)
  show ?case using pt cn hb ic wc by blast
qed

section \<open>The normaliser leaves no two spacing paragraphs side by side\<close>

lemma nas_snoc:
  "no_adjacent_spacing (xs @ [x]) =
     (no_adjacent_spacing xs \<and> \<not> (xs \<noteq> [] \<and> isSpacing (last xs) \<and> isSpacing x))"
  by (induction xs rule: no_adjacent_spacing.induct) auto

lemma nas_tl: "no_adjacent_spacing (x # xs) \<Longrightarrow> no_adjacent_spacing xs"
  by (cases xs) auto

lemma nas_append_left: "no_adjacent_spacing (xs @ ys) \<Longrightarrow> no_adjacent_spacing xs"
  by (induction xs rule: no_adjacent_spacing.induct) auto

lemma nas_append_right: "no_adjacent_spacing (xs @ ys) \<Longrightarrow> no_adjacent_spacing ys"
  by (induction xs) (auto dest: nas_tl)

lemma nas_drop: "no_adjacent_spacing xs \<Longrightarrow> no_adjacent_spacing (drop n xs)"
  using nas_append_right[of "take n xs" "drop n xs"] by simp

lemma nas_take: "no_adjacent_spacing xs \<Longrightarrow> no_adjacent_spacing (take n xs)"
  using nas_append_left[of "take n xs" "drop n xs"] by simp

lemma heading_not_spacing: "node_type x = ''HEADING'' \<Longrightarrow> \<not> isSpacing x"
  by (cases x) (auto simp: isSpacing_def)

lemma node_type_not_SPACING: "node_type x \<noteq> ''SPACING''"
  by (cases x) auto

text \<open>
  The invariant of the loop that builds \<open>enhancedNodes\<close>: no two neighbours of
  \<open>enhancedNodes\<close> are spacing paragraphs, and \<open>previousType\<close> is \<open>'SPACING'\<close> exactly
  when its last node is one. As every heading still to come is followed by a spacing
  paragraph, the loop never adds one after a heading.
\<close>

lemma enhanceLoop_nas:
  assumes "headings_spaced nodes" "no_adjacent_spacing enhanced"
    and "(prev = Some ''SPACING'') = (enhanced \<noteq> [] \<and> isSpacing (last enhanced))"
  shows "no_adjacent_spacing (fst (enhanceLoop nodes i prev enhanced r))"
  using assms
proof (induction nodes arbitrary: i prev enhanced r)
  case (Cons node rest)
  note hr = headings_spaced_tl[OF Cons.prems(1)]
  consider (skip) "isSpacing node" "prev = Some ''SPACING''"
    | (heading) "node_type node = ''HEADING''"
    | (spacing) "isSpacing node" "prev \<noteq> Some ''SPACING''"
    | (other) "\<not> isSpacing node" "node_type node \<noteq> ''HEADING''"
    by (auto dest: heading_not_spacing)
  then show ?case
  proof cases
    case skip
    then show ?thesis using Cons.IH[OF hr Cons.prems(2,3)] by simp
  next
    case heading
    have nx: "\<not> (case rest of [] \<Rightarrow> True | n # ns \<Rightarrow> \<not> isSpacing n)"
      using Cons.prems(1) heading by (cases rest) auto
    have ns: "\<not> isSpacing node" using heading by (rule heading_not_spacing)
    let ?pre = "fst (spacings (if 0 < i \<and> prev \<noteq> Some ''SPACING'' then Suc 0 else 0) r)"
    have A: "no_adjacent_spacing (enhanced @ ?pre @ [node])"
      using Cons.prems(2,3) ns
      by (auto simp: spacings_one nas_snoc simp flip: append_assoc simp del: spacings.simps(2))
    have ih: "no_adjacent_spacing
        (fst (enhanceLoop rest (Suc i) (Some ''HEADING'') (enhanced @ ?pre @ [node]) r'))" for r'
      by (rule Cons.IH[OF hr A]) (simp add: ns)
    show ?thesis using ih
      by (simp add: heading ns nx split_beta del: spacings.simps(2))
  next
    case spacing
    then show ?thesis using Cons.prems(2,3)
      by (auto simp: nas_snoc dest: heading_not_spacing intro!: Cons.IH hr)
  next
    case other
    then show ?thesis using Cons.prems(2,3)
      by (auto simp: nas_snoc node_type_not_SPACING intro!: Cons.IH hr)
  qed
qed simp

text \<open>
  C4: in the Document that the entry point returns, no two spacing nodes (a Paragraph
  whose only child is a Text leaf with exactly one space) are neighbours in the
  top-level node sequence.
\<close>

theorem final_document_no_adjacent_spacing:
  "no_adjacent_spacing (doc_nodes (fst (htmlToRicos body r)))"
proof -
  obtain tag as ks where b: "body = (tag, as, ks)" by (cases body) auto
  have "headings_spaced (fst (convertNodeToRicos body r))"
    using headings_spaced_elements[of tag as ks] by (simp add: b)
  then have "no_adjacent_spacing
      (fst (enhanceLoop (fst (convertNodeToRicos body r)) 0 None []
              (snd (convertNodeToRicos body r))))"
    by (intro enhanceLoop_nas) auto
  then show ?thesis
    by (simp add: htmlToRicos_def split_beta cleanNodes_def Let_def nas_drop nas_take)
qed

theorem final_document_no_adjacent_spacing_witness:
  "no_adjacent_spacing
     (doc_nodes (fst (htmlToRicos
        (''body'', [],
         [Element ''div'' [(''class'', ''section'')] [Element ''h2'' [] [TextNode ''A'']],
          Element ''h2'' [] [TextNode ''B'']])
        (fixedIds ''id''))))"
  by (rule final_document_no_adjacent_spacing)

section \<open>Layout metadata of tables\<close>

lemma length_cellsLoop: "length (fst (cellsLoop hr cs r)) = length cs"
proof (induction cs arbitrary: r)
  case (Cons c cs)
  then show ?case by (cases c) (simp add: split_beta)
qed simp

lemma rowsLoop_layout:
  "snd (fst (rowsLoop rows r)) =
     (replicate (length (fst (fst (rowsLoop rows r)))) 50, max_cells (fst (fst (rowsLoop rows r))))"
proof (induction rows arbitrary: r)
  case (Cons pr rows)
  then show ?case by (cases pr) (simp add: split_beta length_cellsLoop)
qed simp

lemma rowsLoop_source:
  "map row_cells (fst (fst (rowsLoop rows r)))
     = filter (\<lambda>n. 0 < n) (map (\<lambda>(p, row). length (cells_of row)) rows)
   \<and> list_all is_table_row (fst (fst (rowsLoop rows r)))"
proof (induction rows arbitrary: r)
  case (Cons pr rows)
  then show ?case
    by (cases pr) (simp add: split_beta length_cellsLoop is_table_row_def)
qed simp

lemma max_cells_map: "max_cells rows = max_list (map row_cells rows)"
  by (induction rows) auto

lemma max_list_pos: "n \<in> set ns \<Longrightarrow> 0 < n \<Longrightarrow> 0 < max_list ns"
  by (induction ns) (auto simp: less_max_iff_disj)

text \<open>
  C10: a table element with a row that has a cell gives a Table node whose layout
  metadata are constants fixed by the source table. The emitted rows are table rows,
  one for each source row that has a cell, in order and with as many cells.
  \<open>colsWidthRatio\<close> and \<open>colsMinWidth\<close> have as many entries as the largest number of
  cells of a source row, which is the largest number of cells of an emitted row and is
  not 0, all 150 and all 140; \<open>rowsHeight\<close> has one 50 for each emitted row; the border
  colour is \<open>#CFCFCF\<close>, the cell style is width 1 and \<open>solid\<close>.
\<close>

theorem table_layout_constants:
  assumes "list_ex (\<lambda>(p, row). cells_of row \<noteq> []) (rows_of e)"
  shows "\<exists>i rows. fst (handleTable e r) =
           TABLE i
             \<lparr>colsWidthRatio = replicate (max_list (cell_counts e)) 150,
              rowsHeight = replicate (length (cell_counts e)) 50,
              colsMinWidth = replicate (max_list (cell_counts e)) 140,
              borderColor = ''#CFCFCF'', borderWidth = 1, borderStyle = ''solid''\<rparr>
             rows
         \<and> list_all is_table_row rows
         \<and> map row_cells rows = cell_counts e
         \<and> max_cells rows = max_list (cell_counts e)
         \<and> 0 < max_list (cell_counts e)"
proof -
  obtain tag as ks where e: "e = (tag, as, ks)" by (cases e) auto
  from assms obtain p row where pr: "(p, row) \<in> set (rows_of e)" "cells_of row \<noteq> []"
    by (auto simp: list_ex_iff)
  then have ne: "rows_of e \<noteq> []" by auto
  from pr have "length (cells_of row) \<in> set (cell_counts e)"
    by (force simp: cell_counts_def)
  then have pos: "0 < max_list (cell_counts e)"
    using pr(2) by (intro max_list_pos[of "length (cells_of row)"]) auto
  let ?rows = "fst (fst (rowsLoop (rows_of e) r))"
  have src: "map row_cells ?rows = cell_counts e" "list_all is_table_row ?rows"
    using rowsLoop_source[of "rows_of e" r] by (simp_all add: cell_counts_def)
  have len: "length ?rows = length (cell_counts e)"
    using src(1) by (metis length_map)
  have mx: "max_cells ?rows = max_list (cell_counts e)"
    by (simp add: max_cells_map src(1))
  show ?thesis
    using ne src len mx pos rowsLoop_layout[of "rows_of e" r]
    by (simp add: e handleTable.simps split_beta)
qed

theorem table_layout_constants_witness:
  "list_ex (\<lambda>(p, row). cells_of row \<noteq> [])
     (rows_of (''table'', [],
        [Element ''tr'' [] [Element ''td'' [] [TextNode ''a''], Element ''td'' [] []],
         Element ''tr'' [] []])) \<and>
   cell_counts (''table'', [],
        [Element ''tr'' [] [Element ''td'' [] [TextNode ''a''], Element ''td'' [] []],
         Element ''tr'' [] []]) = [2] \<and>
   (\<exists>i rows. fst (handleTable (''table'', [],
        [Element ''tr'' [] [Element ''td'' [] [TextNode ''a''], Element ''td'' [] []],
         Element ''tr'' [] []])
        (fixedIds ''id'')) =
      TABLE i
        \<lparr>colsWidthRatio = [150, 150], rowsHeight = [50], colsMinWidth = [140, 140],
         borderColor = ''#CFCFCF'', borderWidth = 1, borderStyle = ''solid''\<rparr>
        rows
      \<and> map row_cells rows = [2])"
proof -
  let ?e = "(''table'', [],
        [Element ''tr'' [] [Element ''td'' [] [TextNode ''a''], Element ''td'' [] []],
         Element ''tr'' [] []])"
  have h: "list_ex (\<lambda>(p, row). cells_of row \<noteq> []) (rows_of ?e)" by code_simp
  have c: "cell_counts ?e = [2]" by code_simp
  have r: "replicate 2 (150::int) = [150, 150]" "replicate 2 (140::int) = [140, 140]"
    by (simp_all add: numeral_2_eq_2)
  from table_layout_constants [OF h, of "fixedIds ''id''"] show ?thesis
    using h by (auto simp: c r)
qed

section \<open>Dimensions of images\<close>

lemma foldl_positional:
  "foldl (\<lambda>a c. a * b + digit_val c) a ds = a * b ^ length ds + positional b ds"
  by (induction ds arbitrary: a) (simp_all add: algebra_simps)

lemma digits_value_positional: "digits_value b ds = positional b ds"
  by (simp add: digits_value_def foldl_positional)

lemma alnum_table:
  "list_all (\<lambda>c. \<not> is_ws c \<and> c \<noteq> CHR ''-'' \<and> c \<noteq> CHR ''+'')
     (''0123456789abcdefghijklmnopqrstuvwxyz'' @ ''ABCDEFGHIJKLMNOPQRSTUVWXYZ'')"
  by code_simp

lemma digit_plain:
  assumes "digit_val c < 36"
  shows "\<not> is_ws c" "c \<noteq> CHR ''-''" "c \<noteq> CHR ''+''"
proof -
  from assms have "c \<in> set (''0123456789abcdefghijklmnopqrstuvwxyz'' @ ''ABCDEFGHIJKLMNOPQRSTUVWXYZ'')"
    unfolding digit_val_def set_append by (auto split: if_splits)
  with alnum_table show "\<not> is_ws c" "c \<noteq> CHR ''-''" "c \<noteq> CHR ''+''"
    unfolding list_all_iff by blast+
qed

lemma digit_val_zero: "digit_val CHR ''0'' = 0"
  by code_simp

lemma takeWhile_run:
  assumes "list_all P ds" "rest = [] \<or> \<not> P (hd rest)"
  shows "takeWhile P (ds @ rest) = ds"
proof -
  have "takeWhile P rest = []" using assms(2) by (cases rest) auto
  then show ?thesis using assms(1) by (simp add: list_all_iff takeWhile_append2)
qed

lemma dropWhile_run:
  assumes "list_all P ws" "body = [] \<or> \<not> P (hd body)"
  shows "dropWhile P (ws @ body) = body"
  using assms by (cases body) (simp_all add: list_all_iff dropWhile_append2)

text \<open>
  What \<open>parseInt\<close> does once the white space and the sign are read: \<open>body\<close> is the
  text after them.
\<close>

lemma parseInt_stage:
  assumes ws: "list_all is_ws ws"
    and sg: "sg = [] \<or> sg = ''-'' \<or> sg = ''+''"
    and hb: "sg = [] \<Longrightarrow> body \<noteq> [] \<Longrightarrow>
             \<not> is_ws (hd body) \<and> hd body \<noteq> CHR ''-'' \<and> hd body \<noteq> CHR ''+''"
  shows "parseInt (ws @ sg @ body) =
      (let hex = (starts_with body ''0x'' \<or> starts_with body ''0X'');
           radix = (if hex then 16 else 10);
           v = (if hex then drop 2 body else body);
           ds = takeWhile (\<lambda>c. digit_val c < radix) v
       in if ds = [] then NaN
          else to_number ((if sg = ''-'' then - 1 else 1) * int (digits_value radix ds)))"
proof -
  have "sg @ body = [] \<or> \<not> is_ws (hd (sg @ body))"
    using sg hb by (cases body) (auto simp: is_ws_def)
  then have t: "dropWhile is_ws (ws @ sg @ body) = sg @ body"
    using dropWhile_run[OF ws, of "sg @ body"] by simp
  have neg: "starts_with (sg @ body) ''-'' = (sg = ''-'')"
    using sg hb by (cases body) auto
  have pos: "starts_with (sg @ body) ''+'' = (sg = ''+'')"
    using sg hb by (cases body) auto
  have u: "(if sg = ''-'' \<or> sg = ''+'' then drop 1 (sg @ body) else sg @ body) = body"
    using sg by auto
  show ?thesis unfolding parseInt_def t Let_def neg pos u ..
qed

lemma parseInt_reads:
  assumes "integer_parts ws sg radix pre ds rest"
  shows "parseInt (ws @ sg @ pre @ ds @ rest) = to_number (signed sg (positional radix ds))"
proof -
  from assms have ws: "list_all is_ws ws" and sg: "sg = [] \<or> sg = ''-'' \<or> sg = ''+''"
    and rp: "(radix = 10 \<and> pre = []) \<or> (radix = 16 \<and> (pre = ''0x'' \<or> pre = ''0X''))"
    and ds: "ds \<noteq> []" "list_all (\<lambda>c. digit_val c < radix) ds"
    and rest: "rest = [] \<or> \<not> digit_val (hd rest) < radix"
    and nohex: "pre = [] \<Longrightarrow> \<not> starts_with (ds @ rest) ''0x'' \<and> \<not> starts_with (ds @ rest) ''0X''"
    by (auto simp: integer_parts_def)
  obtain d ds' where d: "ds = d # ds'" using ds(1) by (cases ds) auto
  have dv: "digit_val d < radix" using ds(2) d by simp
  have r36: "radix \<le> 36" using rp by auto
  have dp: "\<not> is_ws d" "d \<noteq> CHR ''-''" "d \<noteq> CHR ''+''"
    using digit_plain[of d] dv r36 by auto
  define body where "body = pre @ ds @ rest"
  have hb: "\<not> is_ws (hd body) \<and> hd body \<noteq> CHR ''-'' \<and> hd body \<noteq> CHR ''+''"
    using rp dp d by (auto simp: body_def is_ws_def)
  have tw: "takeWhile (\<lambda>c. digit_val c < radix) (ds @ rest) = ds"
    using ds(2) rest by (rule takeWhile_run)
  have stage: "parseInt (ws @ sg @ pre @ ds @ rest) =
      (let hex = (starts_with body ''0x'' \<or> starts_with body ''0X'');
           radix = (if hex then 16 else 10);
           v = (if hex then drop 2 body else body);
           ds = takeWhile (\<lambda>c. digit_val c < radix) v
       in if ds = [] then NaN
          else to_number ((if sg = ''-'' then - 1 else 1) * int (digits_value radix ds)))"
    using parseInt_stage[OF ws sg, of body] hb unfolding body_def by simp
  show ?thesis
  proof (cases "pre = []")
    case True
    then have r: "radix = 10" using rp by auto
    have bd: "body = ds @ rest" by (simp add: body_def True)
    have nh: "\<not> starts_with body ''0x''" "\<not> starts_with body ''0X''"
      using nohex[OF True] by (simp_all add: bd)
    have tb: "takeWhile (\<lambda>c. digit_val c < 10) body = ds"
      using tw by (simp add: bd r)
    show ?thesis unfolding stage using nh tb ds(1)
      by (simp add: Let_def r digits_value_positional signed_def)
  next
    case False
    then have r: "radix = 16" and p: "pre = ''0x'' \<or> pre = ''0X''" using rp by auto
    have hx: "starts_with body ''0x'' \<or> starts_with body ''0X''"
      using p by (auto simp: body_def)
    have tb: "takeWhile (\<lambda>c. digit_val c < 16) (drop 2 body) = ds"
      using tw p by (auto simp: body_def r)
    show ?thesis unfolding stage using hx tb ds(1)
      by (simp add: Let_def r digits_value_positional signed_def)
  qed
qed

lemma parseInt_no_integer:
  assumes "no_integer ws sg pre rest"
  shows "parseInt (ws @ sg @ pre @ rest) = NaN"
proof -
  from assms have ws: "list_all is_ws ws" and sg: "sg = [] \<or> sg = ''-'' \<or> sg = ''+''"
    and pre: "pre = [] \<or> pre = ''0x'' \<or> pre = ''0X''"
    and rest: "rest = [] \<or> \<not> digit_val (hd rest) < (if pre = [] then 10 else 16)"
    and plain: "sg = [] \<Longrightarrow> pre = [] \<Longrightarrow> rest \<noteq> [] \<Longrightarrow>
                \<not> is_ws (hd rest) \<and> hd rest \<noteq> CHR ''-'' \<and> hd rest \<noteq> CHR ''+''"
    by (auto simp: no_integer_def)
  define body where "body = pre @ rest"
  have hb: "sg = [] \<Longrightarrow> body \<noteq> [] \<Longrightarrow>
            \<not> is_ws (hd body) \<and> hd body \<noteq> CHR ''-'' \<and> hd body \<noteq> CHR ''+''"
    using pre plain by (auto simp: body_def is_ws_def)
  have stage: "parseInt (ws @ sg @ pre @ rest) =
      (let hex = (starts_with body ''0x'' \<or> starts_with body ''0X'');
           radix = (if hex then 16 else 10);
           v = (if hex then drop 2 body else body);
           ds = takeWhile (\<lambda>c. digit_val c < radix) v
       in if ds = [] then NaN
          else to_number ((if sg = ''-'' then - 1 else 1) * int (digits_value radix ds)))"
    using parseInt_stage[OF ws sg, of body] hb unfolding body_def by simp
  show ?thesis
  proof (cases "pre = []")
    case True
    have bd: "body = rest" by (simp add: body_def True)
    have r10: "rest = [] \<or> \<not> digit_val (hd rest) < 10" using rest True by simp
    then have nz: "rest = [] \<or> hd rest \<noteq> CHR ''0''" using digit_val_zero by auto
    have nh: "\<not> starts_with body ''0x''" "\<not> starts_with body ''0X''"
      using nz by (cases rest; simp add: bd)+
    have tb: "takeWhile (\<lambda>c. digit_val c < 10) body = []"
      using r10 by (cases rest) (simp_all add: bd)
    show ?thesis unfolding stage using nh tb by (simp add: Let_def)
  next
    case False
    then have p: "pre = ''0x'' \<or> pre = ''0X''" using pre by auto
    have hx: "starts_with body ''0x'' \<or> starts_with body ''0X''"
      using p by (auto simp: body_def)
    have r16: "rest = [] \<or> \<not> digit_val (hd rest) < 16" using rest False by simp
    have tb: "takeWhile (\<lambda>c. digit_val c < 16) (drop 2 body) = []"
      using r16 p by (cases rest) (auto simp: body_def)
    show ?thesis unfolding stage using hx tb by (simp add: Let_def)
  qed
qed

lemma starts_with_split: "starts_with s p \<Longrightarrow> s = p @ drop (length p) s"
  by (induction s p rule: starts_with.induct) auto

text \<open>Every text reads as an integer or as none: the two shapes leave no text out.\<close>

lemma parts_cover:
  "(\<exists>ws sg radix pre ds rest.
      s = ws @ sg @ pre @ ds @ rest \<and> integer_parts ws sg radix pre ds rest)
   \<or> (\<exists>ws sg pre rest. s = ws @ sg @ pre @ rest \<and> no_integer ws sg pre rest)"
proof -
  define ws where "ws = takeWhile is_ws s"
  define t where "t = dropWhile is_ws s"
  define sg where "sg = (if starts_with t ''-'' then ''-''
                         else if starts_with t ''+'' then ''+'' else [])"
  define u where "u = drop (length sg) t"
  define pre where "pre = (if starts_with u ''0x'' then ''0x''
                           else if starts_with u ''0X'' then ''0X'' else [])"
  define radix :: nat where "radix = (if pre = [] then 10 else 16)"
  define v where "v = drop (length pre) u"
  define ds where "ds = takeWhile (\<lambda>c. digit_val c < radix) v"
  define rest where "rest = dropWhile (\<lambda>c. digit_val c < radix) v"
  have s: "s = ws @ t" by (simp add: ws_def t_def)
  have wsall: "list_all is_ws ws"
    unfolding ws_def list_all_iff by (auto dest: set_takeWhileD)
  have t0: "t = [] \<or> \<not> is_ws (hd t)"
    unfolding t_def by (metis hd_dropWhile)
  have t: "t = sg @ u"
    unfolding u_def sg_def using starts_with_split[of t "''-''"] starts_with_split[of t "''+''"]
    by auto
  have sgs: "sg \<in> set [[], ''-'', ''+'']" by (simp add: sg_def)
  have u: "u = pre @ v"
    unfolding v_def pre_def using starts_with_split[of u "''0x''"] starts_with_split[of u "''0X''"]
    by auto
  have pres: "pre \<in> set [[], ''0x'', ''0X'']" by (simp add: pre_def)
  have rp: "(radix, pre) \<in> set [(10, []), (16, ''0x''), (16, ''0X'')]"
    using pres by (auto simp: radix_def)
  have v: "v = ds @ rest" by (simp add: ds_def rest_def)
  have dsall: "list_all (\<lambda>c. digit_val c < radix) ds"
    unfolding ds_def list_all_iff by (auto dest: set_takeWhileD)
  have r0: "rest = [] \<or> \<not> digit_val (hd rest) < radix"
    unfolding rest_def by (metis (mono_tags, lifting) hd_dropWhile)
  have nohex: "pre = [] \<longrightarrow> \<not> starts_with v ''0x'' \<and> \<not> starts_with v ''0X''"
    using u by (auto simp: pre_def split: if_splits)
  have plain: "sg = [] \<and> u \<noteq> [] \<longrightarrow> \<not> is_ws (hd u) \<and> hd u \<notin> set ''-+''"
  proof (intro impI, elim conjE)
    assume e: "sg = []" and n: "u \<noteq> []"
    then have tu: "t = u" using t by simp
    obtain c cs where c: "u = c # cs" using n by (cases u) auto
    have "\<not> starts_with u ''-''" "\<not> starts_with u ''+''"
      using e by (auto simp: sg_def tu split: if_splits)
    then show "\<not> is_ws (hd u) \<and> hd u \<notin> set ''-+''"
      using t0 n by (auto simp: tu c)
  qed
  show ?thesis
  proof (cases "ds = []")
    case False
    have "integer_parts ws sg radix pre ds rest"
      using wsall sgs rp False dsall r0 nohex by (simp add: integer_parts_def v)
    moreover have "s = ws @ sg @ pre @ ds @ rest" using s t u v by simp
    ultimately show ?thesis by blast
  next
    case True
    then have vr: "v = rest" using v by simp
    have r1: "rest = [] \<or> \<not> digit_val (hd rest) < (if pre = [] then 10 else 16)"
      using r0 by (simp add: radix_def)
    have "sg = [] \<and> pre = [] \<and> rest \<noteq> [] \<longrightarrow> \<not> is_ws (hd rest) \<and> hd rest \<notin> set ''-+''"
      using plain u vr by auto
    then have "no_integer ws sg pre rest"
      using wsall sgs pres r1 by (simp add: no_integer_def)
    moreover have "s = ws @ sg @ pre @ rest" using s t u vr by simp
    ultimately show ?thesis by blast
  qed
qed

lemma img_dim_absent: "getAttribute as name = None \<Longrightarrow> img_dim as name dflt = Exact dflt"
  by (simp add: img_dim_def hasAttribute_def getAttribute_def)

lemma img_dim_empty: "getAttribute as name = Some [] \<Longrightarrow> img_dim as name dflt = Exact 0"
proof -
  have "parseInt ''0'' = Exact 0" by code_simp
  then show "getAttribute as name = Some [] \<Longrightarrow> img_dim as name dflt = Exact 0"
    by (simp add: img_dim_def hasAttribute_def getAttribute_def attr_or_def)
qed

lemma img_dim_reads:
  assumes "getAttribute as name = Some (ws @ sg @ pre @ ds @ rest)"
    and "integer_parts ws sg radix pre ds rest"
  shows "img_dim as name dflt = to_number (signed sg (positional radix ds))"
proof -
  from assms(2) have "ds \<noteq> []" by (simp add: integer_parts_def)
  then show ?thesis using assms(1) parseInt_reads[OF assms(2)]
    by (simp add: img_dim_def hasAttribute_def getAttribute_def attr_or_def)
qed

lemma img_dim_no_integer:
  assumes "getAttribute as name = Some (ws @ sg @ pre @ rest)"
    and "ws @ sg @ pre @ rest \<noteq> []"
    and "no_integer ws sg pre rest"
  shows "img_dim as name dflt = NaN"
proof -
  define v where "v = ws @ sg @ pre @ rest"
  have "getAttribute as name = Some v" "v \<noteq> []" "parseInt v = NaN"
    using assms(1,2) parseInt_no_integer[OF assms(3)] by (simp_all add: v_def)
  then show ?thesis
    by (simp add: img_dim_def hasAttribute_def getAttribute_def attr_or_def)
qed

text \<open>
  C6, as the code has it. Every \<open>img\<close> element becomes one image node, in a paragraph
  or a table cell and at block level alike. A dimension is its default, 500 for the
  width and 300 for the height, only when the attribute is absent. An attribute that is
  present and empty gives 0. An attribute that reads as white space, an optional sign,
  an optional \<open>0x\<close> or \<open>0X\<close>, at least one digit of the radix and then anything that
  does not continue the digits gives the number of that signed integer, whatever follows
  the digits. Any other text that is not empty gives \<open>NaN\<close>.
\<close>

theorem image_dimensions:
  "\<exists>i c u w h.
     fst (inlineChild (''img'', as, ks) r) = [IMAGE i c u w h] \<and>
     fst (walkChild (''img'', as, ks) nodes pwh r) = [IMAGE i c u w h] \<and>
     (getAttribute as ''width'' = None \<longrightarrow> w = Exact 500) \<and>
     (getAttribute as ''height'' = None \<longrightarrow> h = Exact 300) \<and>
     (getAttribute as ''width'' = Some [] \<longrightarrow> w = Exact 0) \<and>
     (getAttribute as ''height'' = Some [] \<longrightarrow> h = Exact 0) \<and>
     (\<forall>ws sg radix pre ds rest.
        getAttribute as ''width'' = Some (ws @ sg @ pre @ ds @ rest) \<longrightarrow>
        integer_parts ws sg radix pre ds rest \<longrightarrow>
        w = to_number (signed sg (positional radix ds))) \<and>
     (\<forall>ws sg radix pre ds rest.
        getAttribute as ''height'' = Some (ws @ sg @ pre @ ds @ rest) \<longrightarrow>
        integer_parts ws sg radix pre ds rest \<longrightarrow>
        h = to_number (signed sg (positional radix ds))) \<and>
     (\<forall>ws sg pre rest.
        getAttribute as ''width'' = Some (ws @ sg @ pre @ rest) \<longrightarrow>
        ws @ sg @ pre @ rest \<noteq> [] \<longrightarrow> no_integer ws sg pre rest \<longrightarrow> w = NaN) \<and>
     (\<forall>ws sg pre rest.
        getAttribute as ''height'' = Some (ws @ sg @ pre @ rest) \<longrightarrow>
        ws @ sg @ pre @ rest \<noteq> [] \<longrightarrow> no_integer ws sg pre rest \<longrightarrow> h = NaN)"
proof -
  let ?i = "fst (generateId r)"
  let ?c = "\<lparr>widthSize = ''CONTENT'', containerAlignment = CENTER, textWrap = True\<rparr>"
  let ?u = "attr_or as ''src'' []"
  let ?w = "img_dim as ''width'' 500" and ?h = "img_dim as ''height'' 300"
  have c1: "fst (inlineChild (''img'', as, ks) r) = [IMAGE ?i ?c ?u ?w ?h]"
    by (simp add: inlineChild.simps imageNode_def split_beta)
  have c2: "fst (walkChild (''img'', as, ks) nodes pwh r) = [IMAGE ?i ?c ?u ?w ?h]"
    by (simp add: walkChild.simps headingTags_def imageNode_def split_beta)
  have w1: "getAttribute as ''width'' = None \<longrightarrow> ?w = Exact 500"
    and h1: "getAttribute as ''height'' = None \<longrightarrow> ?h = Exact 300"
    by (simp_all add: img_dim_absent)
  have w2: "getAttribute as ''width'' = Some [] \<longrightarrow> ?w = Exact 0"
    and h2: "getAttribute as ''height'' = Some [] \<longrightarrow> ?h = Exact 0"
    by (simp_all add: img_dim_empty)
  have w3: "\<forall>ws sg radix pre ds rest.
        getAttribute as ''width'' = Some (ws @ sg @ pre @ ds @ rest) \<longrightarrow>
        integer_parts ws sg radix pre ds rest \<longrightarrow>
        ?w = to_number (signed sg (positional radix ds))"
    and h3: "\<forall>ws sg radix pre ds rest.
        getAttribute as ''height'' = Some (ws @ sg @ pre @ ds @ rest) \<longrightarrow>
        integer_parts ws sg radix pre ds rest \<longrightarrow>
        ?h = to_number (signed sg (positional radix ds))"
    by (intro allI impI, erule (1) img_dim_reads)+
  have w4: "\<forall>ws sg pre rest.
        getAttribute as ''width'' = Some (ws @ sg @ pre @ rest) \<longrightarrow>
        ws @ sg @ pre @ rest \<noteq> [] \<longrightarrow> no_integer ws sg pre rest \<longrightarrow> ?w = NaN"
    and h4: "\<forall>ws sg pre rest.
        getAttribute as ''height'' = Some (ws @ sg @ pre @ rest) \<longrightarrow>
        ws @ sg @ pre @ rest \<noteq> [] \<longrightarrow> no_integer ws sg pre rest \<longrightarrow> ?h = NaN"
    by (intro allI impI, erule (2) img_dim_no_integer)+
  show ?thesis
    by (intro exI conjI) (rule c1 c2 w1 h1 w2 h2 w3 h3 w4 h4)+
qed

theorem image_dimensions_witness:
  "integer_parts ''  '' ''-'' 10 [] ''007'' ''px'' \<and>
   integer_parts [] [] 16 ''0x'' ''1F'' [] \<and>
   fst (inlineChild (''img'', [(''width'', ''  -007px''), (''height'', ''0x1F'')], [])
          (fixedIds ''id''))
     = [IMAGE ''id'' \<lparr>widthSize = ''CONTENT'', containerAlignment = CENTER, textWrap = True\<rparr>
          [] (Exact (- 7)) (Exact 31)]"
proof -
  let ?as = "[(''width'', ''  -007px''), (''height'', ''0x1F'')]"
  have p: "integer_parts ''  '' ''-'' 10 [] ''007'' ''px''" by code_simp
  have q: "integer_parts [] [] 16 ''0x'' ''1F'' []" by code_simp
  have a: "getAttribute ?as ''width'' = Some (''  '' @ ''-'' @ [] @ ''007'' @ ''px'')"
    by code_simp
  have b: "getAttribute ?as ''height'' = Some ([] @ [] @ ''0x'' @ ''1F'' @ [])"
    by code_simp
  have v: "to_number (signed ''-'' (positional 10 ''007'')) = Exact (- 7)"
          "to_number (signed [] (positional 16 ''1F'')) = Exact 31"
    by code_simp+
  from image_dimensions [of ?as "[]" "fixedIds ''id''" "[]" False]
  obtain i c u w h where
    img: "fst (inlineChild (''img'', ?as, []) (fixedIds ''id'')) = [IMAGE i c u w h]"
    and w: "\<forall>ws sg radix pre ds rest.
        getAttribute ?as ''width'' = Some (ws @ sg @ pre @ ds @ rest) \<longrightarrow>
        integer_parts ws sg radix pre ds rest \<longrightarrow>
        w = to_number (signed sg (positional radix ds))"
    and h: "\<forall>ws sg radix pre ds rest.
        getAttribute ?as ''height'' = Some (ws @ sg @ pre @ ds @ rest) \<longrightarrow>
        integer_parts ws sg radix pre ds rest \<longrightarrow>
        h = to_number (signed sg (positional radix ds))"
    apply (elim exE conjE)
    apply (rule that)
      apply assumption+
    done
  have w7: "w = Exact (- 7)" using w a p v(1) by metis
  have h31: "h = Exact 31" using h b q v(2) by metis
  have src: "attr_or ?as ''src'' [] = []" by code_simp
  have "fst (inlineChild (''img'', ?as, []) (fixedIds ''id''))
          = [IMAGE ''id''
               \<lparr>widthSize = ''CONTENT'', containerAlignment = CENTER, textWrap = True\<rparr>
               [] w h]"
    using img src by (simp add: inlineChild.simps imageNode_def generateId_def fixedIds_def
        split_beta)
  then show ?thesis using p q w7 h31 by simp
qed

text \<open>
  C6 as stated fails: an empty \<open>width\<close> gives 0, and a \<open>height\<close> that starts with no
  digit gives \<open>NaN\<close>; neither is replaced by the default.
\<close>

theorem image_dimension_not_defaulted:
  "fst (inlineChild (''img'', [(''width'', []), (''height'', ''abc'')], []) (fixedIds ''id''))
     = [IMAGE ''id'' \<lparr>widthSize = ''CONTENT'', containerAlignment = CENTER, textWrap = True\<rparr>
          [] (Exact 0) NaN]
   \<and> Exact 0 \<noteq> Exact 500 \<and> NaN \<noteq> Exact 300"
  by code_simp

section \<open>Text leaves are not blank, with the exceptions of flattening\<close>

lemma texts_ok_append [simp]: "texts_ok (xs @ ys) = (texts_ok xs \<and> texts_ok ys)"
  by (induction xs) auto

lemma texts_ok_all: "texts_ok xs = list_all text_ok xs"
  by (induction xs) auto

lemma trim_ends:
  assumes "trim t \<noteq> []"
  shows "\<not> is_ws (hd (trim t))" "\<not> is_ws (last (trim t))"
proof -
  define u where "u = dropWhile is_ws t"
  define w where "w = dropWhile is_ws (rev u)"
  have tr: "trim t = rev w" by (simp add: trim_def u_def w_def)
  with assms have w: "w \<noteq> []" by simp
  have u: "u \<noteq> []"
  proof
    assume "u = []"
    then have "w = []" by (simp add: w_def)
    with w show False by simp
  qed
  have "\<not> is_ws (hd w)" using w unfolding w_def by (rule hd_dropWhile)
  then show "\<not> is_ws (last (trim t))" using w by (simp add: tr last_rev)
  have "rev u = takeWhile is_ws (rev u) @ w" by (simp add: w_def)
  then have "last (rev u) = last w" using w by (metis last_appendR)
  then have "last w = hd u" using u by (simp add: last_rev)
  moreover have "\<not> is_ws (hd u)" using u unfolding u_def by (rule hd_dropWhile)
  ultimately show "\<not> is_ws (hd (trim t))" using w by (simp add: tr hd_rev)
qed

lemma trim_fixed:
  assumes "s \<noteq> []" "\<not> is_ws (hd s)" "\<not> is_ws (last s)"
  shows "trim s = s"
proof -
  have "dropWhile is_ws s = s" using assms by (cases s) auto
  moreover have "dropWhile is_ws (rev s) = rev s"
    using assms by (cases "rev s") (auto simp: last_rev[symmetric] simp del: last_rev)
  ultimately show ?thesis by (simp add: trim_def)
qed

lemma trim_trim: "trim t \<noteq> [] \<Longrightarrow> trim (trim t) = trim t"
  by (rule trim_fixed) (auto dest: trim_ends)

lemma text_ok_styledText: "trim t \<noteq> [] \<Longrightarrow> text_ok (styledText ps t)"
  by (simp add: styledText_def marker_or_nonblank_def)

lemma text_ok_csp [simp]: "text_ok (fst (createSpacingParagraph r))"
  by (simp add: createSpacingParagraph_def generateId_def marker_or_nonblank_def)

lemma texts_ok_spacings [simp]: "texts_ok (fst (spacings n r))"
  by (induction n arbitrary: r) (simp_all add: split_beta)

lemma texts_ok_sectionLoop [simp]: "texts_ok (fst (sectionLoop ks r))"
  by (induction ks arbitrary: r) (simp_all add: split_beta del: spacings.simps)

lemma texts_ok_inlineLoop:
  assumes "\<And>t a k r. Element t a k \<in> set cs \<Longrightarrow> texts_ok (fst (inlineChild (t, a, k) r))"
  shows "texts_ok (fst (inlineLoop ps cs r))"
  using assms
proof (induction cs arbitrary: r)
  case (Cons c cs)
  then show ?case by (cases c) (auto simp: split_beta text_ok_styledText)
qed simp

lemma texts_ok_divLoop:
  assumes "\<And>t a k r. Element t a k \<in> set cs \<Longrightarrow>
             texts_ok (fst (convertNodeToRicos (t, a, k) r))"
  shows "texts_ok (fst (divLoop cs r))"
  using assms
proof (induction cs arbitrary: r)
  case (Cons c cs)
  then show ?case
    by (cases c) (auto simp: split_beta generateId_def marker_or_nonblank_def trim_trim)
qed simp

lemma texts_ok_walkLoop:
  assumes "\<And>t a k nodes pwh r. Element t a k \<in> set cs \<Longrightarrow>
             texts_ok (fst (walkChild (t, a, k) nodes pwh r))"
    and "texts_ok nodes"
  shows "texts_ok (fst (walkLoop cs nodes pwh r))"
  using assms
proof (induction cs arbitrary: nodes pwh r)
  case (Cons c cs)
  then show ?case
    by (cases c) (auto simp: split_beta marker_or_nonblank_def intro!: Cons.IH)
qed simp

lemma texts_ok_cellsLoop:
  assumes "\<And>t a k r. (t, a, k) \<in> set cs \<Longrightarrow>
             texts_ok (fst (processTextAndInlineElements (t, a, k) r))"
  shows "texts_ok (fst (cellsLoop hr cs r))"
  using assms
proof (induction cs arbitrary: r)
  case (Cons c cs)
  obtain t a k where c: "c = (t, a, k)" by (cases c) auto
  show ?case using Cons
    by (auto simp: c split_beta cell_fallback_def single_plain_text_def is_plain_text_def)
qed simp

lemma texts_ok_rowsLoop:
  assumes "\<And>p row t a k r. (p, row) \<in> set rows \<Longrightarrow> (t, a, k) \<in> set (cells_of row) \<Longrightarrow>
             texts_ok (fst (processTextAndInlineElements (t, a, k) r))"
  shows "texts_ok (fst (fst (rowsLoop rows r)))"
  using assms
proof (induction rows arbitrary: r)
  case (Cons pr rows)
  obtain p row where pr: "pr = (p, row)" by (cases pr) auto
  have cells: "\<And>r. texts_ok (fst (cellsLoop (p = ''thead'') (cells_of row) r))"
    by (rule texts_ok_cellsLoop) (rule Cons.prems[of p row], simp_all add: pr)
  have rest: "\<And>r. texts_ok (fst (fst (rowsLoop rows r)))"
    by (rule Cons.IH) (rule Cons.prems, auto)
  show ?case by (simp add: pr split_beta cells rest)
qed simp

lemma cell_height:
  assumes "(p, row) \<in> set (rows_of (tag, as, ks))" "(t, a, k) \<in> set (cells_of row)"
  shows "heights k < heights ks"
proof -
  obtain rt ra rk where row: "row = (rt, ra, rk)" by (cases row) auto
  from assms(1) have "eheight row \<le> heights ks"
    by (auto simp: rows_of_def dest: heights_descendants)
  moreover from assms(2) have "eheight (t, a, k) \<le> heights rk"
    by (auto simp: cells_of_def row dest: heights_descendants)
  ultimately show ?thesis by (simp add: eheight_def row)
qed

lemma texts_ok_elements:
  "(\<forall>r. texts_ok (fst (processTextAndInlineElements (tag, as, ks) r))) \<and>
   (\<forall>r. texts_ok (fst (convertNodeToRicos (tag, as, ks) r))) \<and>
   (\<forall>r. texts_ok (fst (handleBlockElement (tag, as, ks) r))) \<and>
   (\<forall>r. texts_ok (fst (inlineChild (tag, as, ks) r))) \<and>
   (\<forall>nodes pwh r. texts_ok (fst (walkChild (tag, as, ks) nodes pwh r)))"
proof (induction "heights ks" arbitrary: tag as ks rule: less_induct)
  case less
  have kids: "\<And>t a k. Element t a k \<in> set ks \<Longrightarrow>
      (\<forall>r. texts_ok (fst (inlineChild (t, a, k) r))) \<and>
      (\<forall>r. texts_ok (fst (convertNodeToRicos (t, a, k) r))) \<and>
      (\<forall>nodes pwh r. texts_ok (fst (walkChild (t, a, k) nodes pwh r)))"
    using less[OF child_height] by blast
  have pt: "\<And>tg r. texts_ok (fst (processTextAndInlineElements (tg, as, ks) r))"
    by (simp add: processTextAndInlineElements.simps texts_ok_inlineLoop kids)
  have cn: "\<And>tg r. texts_ok (fst (convertNodeToRicos (tg, as, ks) r))"
    by (simp add: convertNodeToRicos.simps split_beta texts_ok_walkLoop kids)
  have dl: "\<And>r. texts_ok (fst (divLoop ks r))"
    by (simp add: texts_ok_divLoop kids)
  have hb: "\<And>tg r. texts_ok (fst (handleBlockElement (tg, as, ks) r))"
    by (simp add: handleBlockElement.simps split_beta generateId_def headingNode_def
        single_plain_text_def is_plain_text_def pt cn dl del: spacings.simps)
  have ic: "\<And>r. texts_ok (fst (inlineChild (tag, as, ks) r))"
    by (simp add: inlineChild.simps split_beta generateId_def imageNode_def
        marker_or_nonblank_def pt hb)
  have rl: "\<And>tg r. texts_ok (fst (fst (rowsLoop (rows_of (tg, as, ks)) r)))"
    by (rule texts_ok_rowsLoop) (use less[OF cell_height] in blast)
  have ht: "\<And>tg r. text_ok (fst (handleTable (tg, as, ks) r))"
    by (simp add: handleTable.simps split_beta rl)
  have wc: "\<And>nodes pwh r. texts_ok (fst (walkChild (tag, as, ks) nodes pwh r))"
    by (simp add: walkChild.simps split_beta generateId_def imageNode_def headingNode_def
        single_plain_text_def is_plain_text_def marker_or_nonblank_def
        pt hb cn ht del: spacings.simps)
  show ?case using pt cn hb ic wc by blast
qed

lemma texts_ok_enhanceLoop:
  "texts_ok nodes \<Longrightarrow> texts_ok enhanced \<Longrightarrow>
   texts_ok (fst (enhanceLoop nodes i prev enhanced r))"
  by (induction nodes arbitrary: i prev enhanced r)
     (simp_all add: split_beta del: spacings.simps)

lemma texts_ok_take_drop: "texts_ok xs \<Longrightarrow> texts_ok (drop m (take n xs))"
  unfolding texts_ok_all list_all_iff
  by (meson in_set_dropD in_set_takeD)

text \<open>
  C7, as the code has it: every Text node of the returned Document has content that is
  non-empty after trimming, or is exactly one space or one newline, or is a leaf that
  holds the text content of an element unchanged: a Text whose decorations are those of
  flattened \<open>strong\<close>/\<open>b\<close>, \<open>em\<close>/\<open>i\<close>, \<open>u\<close> or \<open>a\<close>, the undecorated Text
  under a CodeBlock, or the undecorated fallback Text of a table cell.
\<close>

theorem final_texts_nonblank_or_exempt:
  "texts_ok (doc_nodes (fst (htmlToRicos body r)))"
proof -
  obtain tag as ks where b: "body = (tag, as, ks)" by (cases body) auto
  have "texts_ok (fst (convertNodeToRicos body r))"
    using texts_ok_elements[of tag as ks] by (simp add: b)
  then have "texts_ok (fst (enhanceLoop (fst (convertNodeToRicos body r)) 0 None []
      (snd (convertNodeToRicos body r))))"
    by (intro texts_ok_enhanceLoop) auto
  then show ?thesis
    by (simp add: htmlToRicos_def split_beta cleanNodes_def Let_def texts_ok_take_drop)
qed

theorem final_texts_nonblank_or_exempt_witness:
  "texts_ok (doc_nodes (fst (htmlToRicos
      (''body'', [],
       [Element ''p'' [] [TextNode ''a '', Element ''b'' [] [], Element ''br'' [] []],
        Element ''pre'' [] [TextNode ''  '']])
      (fixedIds ''id''))))"
  by (rule final_texts_nonblank_or_exempt)

text \<open>
  C7 as stated fails: for \<open><p><b></b></p>\<close> the Document holds a Text node whose
  content is empty, which is neither of the two markers.
\<close>

theorem empty_bold_text_survives:
  "fst (htmlToRicos (''body'', [], [Element ''p'' [] [Element ''b'' [] []]]) (fixedIds ''id''))
     = Document [PARAGRAPH ''id'' None [TEXT [] [] (Some [BOLD (Exact 700)])]]
   \<and> trim [] = [] \<and> [] \<noteq> '' '' \<and> [] \<noteq> [CHR 0x0A]"
  by code_simp

section \<open>Two runs differ in the identifiers only\<close>

lemma shape_Nil: "map strip_ids xs = map strip_ids ys \<Longrightarrow> (xs = []) = (ys = [])"
  by (metis map_is_Nil_conv)

lemma shape_append:
  "map strip_ids a = map strip_ids a' \<Longrightarrow> map strip_ids b = map strip_ids b' \<Longrightarrow>
   map strip_ids a @ map strip_ids b = map strip_ids a' @ map strip_ids b'"
  by simp

lemma strip_csp [simp]:
  "strip_ids (fst (createSpacingParagraph r)) = PARAGRAPH [] None [TEXT [] '' '' None]"
  by (simp add: createSpacingParagraph_def generateId_def)

lemma shape_spacings: "map strip_ids (fst (spacings n r)) = replicate n (PARAGRAPH [] None [TEXT [] '' '' None])"
  by (induction n arbitrary: r) (simp_all add: split_beta)

lemma shape_sectionLoop:
  "map strip_ids (fst (sectionLoop ks r)) = map strip_ids (fst (sectionLoop ks r'))"
  by (induction ks arbitrary: r r')
     (auto simp: split_beta shape_spacings intro!: shape_append simp del: spacings.simps)

lemma isSpacing_strip [simp]: "isSpacing (strip_ids x) = isSpacing x"
  by (cases x) (auto simp: isSpacing_def isSpaceText_def split: list.splits rnode.splits)

lemma node_type_strip [simp]: "node_type (strip_ids x) = node_type x"
  by (cases x) auto

lemma shape_inlineLoop:
  assumes "\<And>t a k r r'. Element t a k \<in> set cs \<Longrightarrow>
             map strip_ids (fst (inlineChild (t, a, k) r))
               = map strip_ids (fst (inlineChild (t, a, k) r'))"
  shows "map strip_ids (fst (inlineLoop ps cs r)) = map strip_ids (fst (inlineLoop ps cs r'))"
  using assms
proof (induction cs arbitrary: r r')
  case (Cons c cs)
  then show ?case by (cases c) (auto simp: split_beta intro!: shape_append)
qed simp

lemma shape_divLoop:
  assumes "\<And>t a k r r'. Element t a k \<in> set cs \<Longrightarrow>
             map strip_ids (fst (convertNodeToRicos (t, a, k) r))
               = map strip_ids (fst (convertNodeToRicos (t, a, k) r'))"
  shows "map strip_ids (fst (divLoop cs r)) = map strip_ids (fst (divLoop cs r'))"
  using assms
proof (induction cs arbitrary: r r')
  case (Cons c cs)
  then show ?case
    by (cases c) (auto simp: split_beta generateId_def intro!: shape_append)
qed simp

lemma shape_walkLoop:
  assumes "\<And>t a k nodes nodes' pwh r r'. Element t a k \<in> set cs \<Longrightarrow>
             (nodes = []) = (nodes' = []) \<Longrightarrow>
             map strip_ids (fst (walkChild (t, a, k) nodes pwh r))
               = map strip_ids (fst (walkChild (t, a, k) nodes' pwh r')) \<and>
             fst (snd (walkChild (t, a, k) nodes pwh r))
               = fst (snd (walkChild (t, a, k) nodes' pwh r'))"
    and "map strip_ids nodes = map strip_ids nodes'"
  shows "map strip_ids (fst (walkLoop cs nodes pwh r))
           = map strip_ids (fst (walkLoop cs nodes' pwh r'))"
  using assms
proof (induction cs arbitrary: nodes nodes' pwh r r')
  case (Cons c cs)
  have kids: "\<And>t a k nodes nodes' pwh r r'. Element t a k \<in> set cs \<Longrightarrow>
             (nodes = []) = (nodes' = []) \<Longrightarrow>
             map strip_ids (fst (walkChild (t, a, k) nodes pwh r))
               = map strip_ids (fst (walkChild (t, a, k) nodes' pwh r')) \<and>
             fst (snd (walkChild (t, a, k) nodes pwh r))
               = fst (snd (walkChild (t, a, k) nodes' pwh r'))"
    using Cons.prems(1) by simp
  note ih = Cons.IH[OF kids]
  show ?case
  proof (cases c)
    case (TextNode t)
    then show ?thesis using Cons.prems(2)
      by (simp add: ih)
  next
    case (Element t a k)
    have e: "(nodes = []) = (nodes' = [])" using Cons.prems(2) by (rule shape_Nil)
    have wc: "map strip_ids (fst (walkChild (t, a, k) nodes pwh r))
                = map strip_ids (fst (walkChild (t, a, k) nodes' pwh r'))"
      "fst (snd (walkChild (t, a, k) nodes pwh r))
               = fst (snd (walkChild (t, a, k) nodes' pwh r'))"
      using Cons.prems(1)[of t a k nodes nodes' pwh r r'] e by (simp_all add: Element)
    show ?thesis using Cons.prems(2)
      by (simp add: Element split_beta wc ih)
  qed
qed simp

lemma shape_cellsLoop:
  assumes "\<And>t a k r r'. (t, a, k) \<in> set cs \<Longrightarrow>
             map strip_ids (fst (processTextAndInlineElements (t, a, k) r))
               = map strip_ids (fst (processTextAndInlineElements (t, a, k) r'))"
  shows "map strip_ids (fst (cellsLoop hr cs r)) = map strip_ids (fst (cellsLoop hr cs r'))"
  using assms
proof (induction cs arbitrary: r r')
  case (Cons c cs)
  obtain t a k where c: "c = (t, a, k)" by (cases c) auto
  have rest: "\<And>r r'. map strip_ids (fst (cellsLoop hr cs r))
                        = map strip_ids (fst (cellsLoop hr cs r'))"
    by (rule Cons.IH) (rule Cons.prems, simp)
  let ?x = "fst (processTextAndInlineElements (t, a, k) (snd (generateId r)))"
  let ?y = "fst (processTextAndInlineElements (t, a, k) (snd (generateId r')))"
  have xy: "map strip_ids ?x = map strip_ids ?y" by (rule Cons.prems) (simp add: c)
  then have e: "(?x = []) = (?y = [])" by (rule shape_Nil)
  show ?case using xy e rest
    by (cases "?x = []") (simp_all add: c split_beta)
qed simp

lemma shape_rowsLoop:
  assumes "\<And>p row t a k r r'. (p, row) \<in> set rows \<Longrightarrow> (t, a, k) \<in> set (cells_of row) \<Longrightarrow>
             map strip_ids (fst (processTextAndInlineElements (t, a, k) r))
               = map strip_ids (fst (processTextAndInlineElements (t, a, k) r'))"
  shows "map strip_ids (fst (fst (rowsLoop rows r)))
           = map strip_ids (fst (fst (rowsLoop rows r')))"
  using assms
proof (induction rows arbitrary: r r')
  case (Cons pr rows)
  obtain p row where pr: "pr = (p, row)" by (cases pr) auto
  have cells: "\<And>r r'. map strip_ids (fst (cellsLoop (p = ''thead'') (cells_of row) r))
                         = map strip_ids (fst (cellsLoop (p = ''thead'') (cells_of row) r'))"
    by (rule shape_cellsLoop) (rule Cons.prems[of p row], simp_all add: pr)
  have rest: "\<And>r r'. map strip_ids (fst (fst (rowsLoop rows r)))
                        = map strip_ids (fst (fst (rowsLoop rows r')))"
    by (rule Cons.IH) (rule Cons.prems, auto)
  show ?case using cells rest
    by (simp add: pr split_beta)
qed simp

lemma row_cells_strip [simp]: "row_cells (strip_ids x) = row_cells x"
  by (cases x) auto

lemma max_cells_strip: "max_cells (map strip_ids xs) = max_cells xs"
  by (induction xs) auto

lemma rowsLoop_meta:
  assumes "map strip_ids (fst (fst (rowsLoop rows r)))
             = map strip_ids (fst (fst (rowsLoop rows r')))"
  shows "snd (fst (rowsLoop rows r)) = snd (fst (rowsLoop rows r'))"
proof -
  let ?a = "fst (fst (rowsLoop rows r))" and ?b = "fst (fst (rowsLoop rows r'))"
  from assms have "length ?a = length ?b" by (rule map_eq_imp_length_eq)
  moreover have "max_cells ?a = max_cells ?b"
    using max_cells_strip[of ?a] max_cells_strip[of ?b] assms by simp
  ultimately show ?thesis by (simp add: rowsLoop_layout[of rows r] rowsLoop_layout[of rows r'])
qed

lemma shape_elements:
  "(\<forall>r r'. map strip_ids (fst (processTextAndInlineElements (tag, as, ks) r))
             = map strip_ids (fst (processTextAndInlineElements (tag, as, ks) r'))) \<and>
   (\<forall>r r'. map strip_ids (fst (convertNodeToRicos (tag, as, ks) r))
             = map strip_ids (fst (convertNodeToRicos (tag, as, ks) r'))) \<and>
   (\<forall>r r'. map strip_ids (fst (handleBlockElement (tag, as, ks) r))
             = map strip_ids (fst (handleBlockElement (tag, as, ks) r'))) \<and>
   (\<forall>r r'. map strip_ids (fst (inlineChild (tag, as, ks) r))
             = map strip_ids (fst (inlineChild (tag, as, ks) r'))) \<and>
   (\<forall>nodes nodes' pwh r r'. (nodes = []) = (nodes' = []) \<longrightarrow>
      map strip_ids (fst (walkChild (tag, as, ks) nodes pwh r))
        = map strip_ids (fst (walkChild (tag, as, ks) nodes' pwh r')) \<and>
      fst (snd (walkChild (tag, as, ks) nodes pwh r))
        = fst (snd (walkChild (tag, as, ks) nodes' pwh r')))"
proof (induction "heights ks" arbitrary: tag as ks rule: less_induct)
  case less
  note kid = less[OF child_height]
  have kid_ic: "map strip_ids (fst (inlineChild (t, a, k) r))
                  = map strip_ids (fst (inlineChild (t, a, k) r'))"
    if "Element t a k \<in> set ks" for t a k r r'
    using kid[OF that, of t a] by (elim conjE) (erule allE[of _ r], erule allE[of _ r'])
  have kid_cn: "map strip_ids (fst (convertNodeToRicos (t, a, k) r))
                  = map strip_ids (fst (convertNodeToRicos (t, a, k) r'))"
    if "Element t a k \<in> set ks" for t a k r r'
    using kid[OF that, of t a] by (elim conjE) (erule allE[of _ r], erule allE[of _ r'])
  have kid_wc: "map strip_ids (fst (walkChild (t, a, k) nodes pwh r))
           = map strip_ids (fst (walkChild (t, a, k) nodes' pwh r')) \<and>
         fst (snd (walkChild (t, a, k) nodes pwh r))
           = fst (snd (walkChild (t, a, k) nodes' pwh r'))"
    if "Element t a k \<in> set ks" "(nodes = []) = (nodes' = [])" for t a k nodes nodes' pwh r r'
  proof -
    from kid[OF that(1), of t a] have "\<forall>nodes nodes' pwh r r'. (nodes = []) = (nodes' = []) \<longrightarrow>
         map strip_ids (fst (walkChild (t, a, k) nodes pwh r))
           = map strip_ids (fst (walkChild (t, a, k) nodes' pwh r')) \<and>
         fst (snd (walkChild (t, a, k) nodes pwh r))
           = fst (snd (walkChild (t, a, k) nodes' pwh r'))" by (elim conjE)
    then show ?thesis using that(2) by (elim allE[of _ nodes] allE[of _ nodes'] allE[of _ pwh] allE[of _ r] allE[of _ r']) (erule mp)
  qed
  have pt: "map strip_ids (fst (processTextAndInlineElements (tg, as, ks) r))
              = map strip_ids (fst (processTextAndInlineElements (tg, as, ks) r'))" for tg r r'
    unfolding processTextAndInlineElements.simps
    by (rule shape_inlineLoop) (rule kid_ic)
  have wl: "map strip_ids (fst (walkLoop ks [] False r))
              = map strip_ids (fst (walkLoop ks [] False r'))" for r r'
    by (rule shape_walkLoop) (rule kid_wc, assumption+, simp)
  have cn: "map strip_ids (fst (convertNodeToRicos (tg, as, ks) r))
              = map strip_ids (fst (convertNodeToRicos (tg, as, ks) r'))" for tg r r'
    by (simp add: convertNodeToRicos.simps split_beta)
       (intro shape_append wl shape_sectionLoop)
  have dl: "map strip_ids (fst (divLoop ks r)) = map strip_ids (fst (divLoop ks r'))" for r r'
    by (rule shape_divLoop) (rule kid_cn)
  have hb: "map strip_ids (fst (handleBlockElement (tg, as, ks) r))
              = map strip_ids (fst (handleBlockElement (tg, as, ks) r'))" for tg r r'
    by (simp add: handleBlockElement.simps split_beta generateId_def headingNode_def
          shape_spacings del: spacings.simps)
       (intro conjI impI shape_append pt cn dl refl)
  have ic: "map strip_ids (fst (inlineChild (tag, as, ks) r))
              = map strip_ids (fst (inlineChild (tag, as, ks) r'))" for r r'
    by (simp add: inlineChild.simps split_beta generateId_def imageNode_def)
       (intro conjI impI shape_append pt hb refl)
  have ht: "strip_ids (fst (handleTable (tg, as, ks) r))
              = strip_ids (fst (handleTable (tg, as, ks) r'))" for tg r r'
  proof -
    have cell: "map strip_ids (fst (processTextAndInlineElements (t, a, k) r))
                  = map strip_ids (fst (processTextAndInlineElements (t, a, k) r'))"
      if "(p, row) \<in> set (rows_of (tg, as, ks))" "(t, a, k) \<in> set (cells_of row)"
      for p row t a k r r'
      using less[OF cell_height[OF that], of t a]
      by (elim conjE) (erule allE[of _ r], erule allE[of _ r'])
    have rl: "map strip_ids (fst (fst (rowsLoop (rows_of (tg, as, ks)) r)))
                = map strip_ids (fst (fst (rowsLoop (rows_of (tg, as, ks)) r')))"
      by (rule shape_rowsLoop) (rule cell)
    note m = rowsLoop_meta[OF rl]
    show ?thesis by (simp add: handleTable.simps split_beta rl m)
  qed
  have wc: "map strip_ids (fst (walkChild (tag, as, ks) nodes pwh r))
              = map strip_ids (fst (walkChild (tag, as, ks) nodes' pwh r')) \<and>
            fst (snd (walkChild (tag, as, ks) nodes pwh r))
              = fst (snd (walkChild (tag, as, ks) nodes' pwh r'))"
    if e: "(nodes = []) = (nodes' = [])" for nodes nodes' pwh r r'
    by (simp add: walkChild.simps split_beta generateId_def imageNode_def headingNode_def
          shape_spacings e del: spacings.simps)
       (intro conjI impI shape_append pt cn hb ht refl)
  show ?case using pt cn hb ic wc by simp
qed

lemma shape_enhanceLoop:
  assumes "map strip_ids nodes = map strip_ids nodes'"
    and "map strip_ids enhanced = map strip_ids enhanced'"
  shows "map strip_ids (fst (enhanceLoop nodes i prev enhanced r))
           = map strip_ids (fst (enhanceLoop nodes' i prev enhanced' r'))"
  using assms
proof (induction nodes arbitrary: nodes' i prev enhanced enhanced' r r')
  case Nil
  then show ?case by simp
next
  case (Cons node rest)
  from Cons.prems(1) obtain node' rest' where n': "nodes' = node' # rest'"
    and sn: "strip_ids node = strip_ids node'"
    and sr: "map strip_ids rest = map strip_ids rest'"
    by (cases nodes') auto
  have sp: "isSpacing node = isSpacing node'" using sn by (metis isSpacing_strip)
  have ty: "node_type node = node_type node'" using sn by (metis node_type_strip)
  have nx: "(case rest of [] \<Rightarrow> True | n # ns \<Rightarrow> \<not> isSpacing n)
              = (case rest' of [] \<Rightarrow> True | n # ns \<Rightarrow> \<not> isSpacing n)"
  proof (cases rest)
    case Nil
    then show ?thesis using sr by simp
  next
    case (Cons a list)
    then obtain b list' where "rest' = b # list'" "strip_ids a = strip_ids b"
      using sr by (cases rest') auto
    then show ?thesis using Cons by (simp, metis isSpacing_strip)
  qed
  note ih = Cons.IH[OF sr]
  show ?case using Cons.prems(2) sn
    by (simp add: n' sp ty nx split_beta shape_spacings del: spacings.simps)
       (intro conjI impI ih; simp add: shape_spacings del: spacings.simps)
qed

lemma takeWhile_isSpacing_strip:
  "length (takeWhile isSpacing (map strip_ids xs)) = length (takeWhile isSpacing xs)"
  by (induction xs) auto

lemma shape_cleanNodes: "map strip_ids (cleanNodes xs) = cleanNodes (map strip_ids xs)"
  using takeWhile_isSpacing_strip[of xs] takeWhile_isSpacing_strip[of "rev xs"]
  by (simp add: cleanNodes_def Let_def drop_map take_map rev_map)

text \<open>
  C8, as the code has it: two invocations of the entry point on the same input, whatever
  identifiers \<open>Math.random\<close> gives to each, return Documents that are identical once
  the identifiers are erased.
\<close>

theorem documents_equal_up_to_ids:
  "strip_doc (fst (htmlToRicos body r)) = strip_doc (fst (htmlToRicos body r'))"
proof -
  obtain tag as ks where b: "body = (tag, as, ks)" by (cases body) auto
  have "map strip_ids (fst (convertNodeToRicos body r))
          = map strip_ids (fst (convertNodeToRicos body r'))"
    using shape_elements[of tag as ks] by (simp add: b)
  then have "map strip_ids (fst (enhanceLoop (fst (convertNodeToRicos body r)) 0 None []
                                   (snd (convertNodeToRicos body r))))
           = map strip_ids (fst (enhanceLoop (fst (convertNodeToRicos body r')) 0 None []
                                   (snd (convertNodeToRicos body r'))))"
    by (rule shape_enhanceLoop) simp
  then show ?thesis
    by (simp add: htmlToRicos_def split_beta shape_cleanNodes)
qed

theorem documents_equal_up_to_ids_witness:
  "strip_doc (fst (htmlToRicos (''body'', [], [Element ''p'' [] [TextNode ''x'']]) (fixedIds ''a'')))
     = strip_doc (fst (htmlToRicos (''body'', [], [Element ''p'' [] [TextNode ''x'']]) (fixedIds ''b'')))"
  by (rule documents_equal_up_to_ids)

text \<open>
  C8 as stated fails: the same input converted with two different identifier sequences
  gives two different Documents.
\<close>

theorem documents_differ_in_ids:
  "fst (htmlToRicos (''body'', [], [Element ''p'' [] [TextNode ''x'']]) (fixedIds ''a''))
     = Document [PARAGRAPH ''a'' None [TEXT [] ''x'' None]]
   \<and> fst (htmlToRicos (''body'', [], [Element ''p'' [] [TextNode ''x'']]) (fixedIds ''b''))
     = Document [PARAGRAPH ''b'' None [TEXT [] ''x'' None]]
   \<and> fst (htmlToRicos (''body'', [], [Element ''p'' [] [TextNode ''x'']]) (fixedIds ''a''))
     \<noteq> fst (htmlToRicos (''body'', [], [Element ''p'' [] [TextNode ''x'']]) (fixedIds ''b''))"
  by code_simp

end
